theory Spec2Isabelle
  imports Complex_Main "HOL-Library.Multiset"
begin

section \<open>Conventions of the embedding\<close>

text \<open>
  The Python sources \<^verbatim>\<open>rlget/rate_limiter.py\<close>, \<^verbatim>\<open>rlget/utils.py\<close> and
  \<^verbatim>\<open>rlget/downloader.py\<close> are embedded as HOL functions.

  \<^item> Python \<^verbatim>\<open>int\<close> is \<open>int\<close>. A finite Python \<^verbatim>\<open>float\<close> is a \<open>real\<close>, and
    rounding is outside the model. Where the finite range of a float or of a C integer
    makes the code raise, the model raises: the conversion of \<^verbatim>\<open>2 ** (attempt - 1)\<close> to
    a float, and the nanosecond clock type behind \<^verbatim>\<open>time.sleep\<close> and \<^verbatim>\<open>Condition.wait\<close>.
    The values inf and nan, which a Retry-After header can carry, are values of
    \<open>pyfloat\<close>. The rate and the capacity of the limiter are finite: with a rate or a
    capacity that is inf or nan the limiter is outside the model.
  \<^item> An exception is a value of type \<open>exn\<close>; a function that may raise returns
    \<open>exn + 'a\<close> with \<open>Inl\<close> for the raised exception.
  \<^item> Everything the environment decides (the clock, the random generator, the server,
    the file listing, the order in which workers finish) is an explicit argument.
\<close>

datatype pyfloat = Finite real | PlusInfinity | MinusInfinity | NaN

datatype retry_after_header =
    Absent             \<comment> \<open>no header, or an empty one: \<^verbatim>\<open>if ra:\<close> is false\<close>
  | Malformed          \<comment> \<open>\<^verbatim>\<open>float(ra)\<close> raises: the inner handler resets to None\<close>
  | Seconds real       \<comment> \<open>\<^verbatim>\<open>float(ra)\<close> returns this number\<close>
  | SecondsInf         \<comment> \<open>\<^verbatim>\<open>float(ra)\<close> returns inf\<close>
  | SecondsMinusInf    \<comment> \<open>\<^verbatim>\<open>float(ra)\<close> returns -inf\<close>
  | SecondsNaN         \<comment> \<open>\<^verbatim>\<open>float(ra)\<close> returns nan\<close>

datatype exn =
    HTTPError int string retry_after_header   \<comment> \<open>code, reason, Retry-After of the error response\<close>
  | URLError string                            \<comment> \<open>reason\<close>
  | OtherError string string                   \<comment> \<open>class name and message of any other Exception\<close>

text \<open>CPython turns a number of seconds into its clock type, a 64-bit count of
  nanoseconds, rounding away from zero, and raises OverflowError when the count does
  not fit. \<^verbatim>\<open>time.sleep\<close> and the timed \<^verbatim>\<open>Condition.wait\<close> both start with this.\<close>

definition to_ns :: "real \<Rightarrow> int" where
  "to_ns secs = (if 0 \<le> secs then \<lceil>secs * 10 ^ 9\<rceil> else \<lfloor>secs * 10 ^ 9\<rfloor>)"

definition clock_overflow :: "real \<Rightarrow> bool" where
  "clock_overflow secs \<longleftrightarrow> \<not> (- (2 ^ 63) \<le> to_ns secs \<and> to_ns secs < 2 ^ 63)"

definition timestamp_error :: exn where
  "timestamp_error = OtherError ''OverflowError'' ''timestamp out of range for platform time_t''"

section \<open>rate\_limiter.py\<close>

record RateLimiter =
  rate :: real
  capacity :: real
  tokens :: real
  last_t :: real  \<comment> \<open>the field \<^verbatim>\<open>_last\<close>\<close>

text \<open>\<^verbatim>\<open>RateLimiter.__init__(rate, capacity=None)\<close>; \<open>now\<close> is the reading of
  \<^verbatim>\<open>time.perf_counter()\<close> taken by the constructor.\<close>

definition RateLimiter_init :: "real \<Rightarrow> real option \<Rightarrow> real \<Rightarrow> exn + RateLimiter" where
  "RateLimiter_init r cap now =
     (if r \<le> 0 then Inl (OtherError ''ValueError'' ''rate must be > 0 (tokens per second)'')
      else
        let c = (case cap of Some c \<Rightarrow> c | None \<Rightarrow> r)
        in Inr \<lparr>rate = r, capacity = c, tokens = c, last_t = now\<rparr>)"

text \<open>\<^verbatim>\<open>_refill\<close>, with the clock reading \<open>now\<close>.\<close>

definition refill :: "real \<Rightarrow> RateLimiter \<Rightarrow> RateLimiter" where
  "refill now s =
     (let elapsed = now - last_t s
      in if elapsed \<le> 0 then s
         else s\<lparr>last_t := now, tokens := min (capacity s) (tokens s + elapsed * rate s)\<rparr>)"

text \<open>\<^verbatim>\<open>try_acquire\<close>: one critical section under the lock.\<close>

definition try_acquire :: "real \<Rightarrow> RateLimiter \<Rightarrow> bool \<times> RateLimiter" where
  "try_acquire now s =
     (let s1 = refill now s
      in if tokens s1 \<ge> 1 then (True, s1\<lparr>tokens := tokens s1 - 1\<rparr>) else (False, s1))"

text \<open>\<^verbatim>\<open>acquire\<close>: the \<^verbatim>\<open>while True\<close> loop. Each pass reads the clock once; the list holds
  the successive readings, one per pass (how long a wait lasts is the environment's).
  A pass without a token waits for \<open>wait_s\<close> seconds, which is positive, and the wait
  raises when that timeout overflows the clock type. \<open>None\<close> means that the caller is
  still blocked when the readings run out; \<open>Some (Inl e)\<close> that \<^verbatim>\<open>acquire\<close> raised \<open>e\<close>;
  \<open>Some (Inr s)\<close> that it returned, leaving the limiter in state \<open>s\<close>.\<close>

definition wait_s :: "RateLimiter \<Rightarrow> real" where
  "wait_s s = max ((1 - tokens s) / rate s) (1 / 1000)"

fun acquire :: "real list \<Rightarrow> RateLimiter \<Rightarrow> (exn + RateLimiter) option" where
  "acquire [] s = None"
| "acquire (now # nows) s =
     (let s1 = refill now s
      in if tokens s1 \<ge> 1 then Some (Inr (s1\<lparr>tokens := tokens s1 - 1\<rparr>))
         else if clock_overflow (wait_s s1) then Some (Inl timestamp_error)
         else acquire nows s1)"

text \<open>The states a limiter can be in: every critical section of every thread is one of
  the three operations, run atomically under the lock, in any interleaving.\<close>

inductive reachable :: "RateLimiter \<Rightarrow> RateLimiter \<Rightarrow> bool" for s0 where
  r_init: "reachable s0 s0"
| r_refill: "reachable s0 s \<Longrightarrow> reachable s0 (refill now s)"
| r_try: "reachable s0 s \<Longrightarrow> reachable s0 (snd (try_acquire now s))"
| r_acquire: "reachable s0 s \<Longrightarrow> acquire nows s = Some (Inr s') \<Longrightarrow> reachable s0 s'"

section \<open>Library functions that utils.py calls\<close>

text \<open>
  A Python \<^verbatim>\<open>str\<close> is a \<open>string\<close>: the characters are the code points 0 to 255, which
  is what an HTTP header holds once \<^verbatim>\<open>http.client\<close> has decoded it as latin-1.
  The functions below follow the CPython standard library on such strings; what each
  leaves out is said with it.
\<close>

definition quote_char :: char where "quote_char = CHR 0x22"
definition apostrophe :: char where "apostrophe = CHR 0x27"
definition backslash :: char where "backslash = CHR 0x5C"
definition newline :: char where "newline = CHR 0x0A"
definition carriage_return :: char where "carriage_return = CHR 0x0D"

text \<open>\<^verbatim>\<open>str.isspace\<close> on one character, and \<^verbatim>\<open>str.strip()\<close>.\<close>

definition isspace :: "char \<Rightarrow> bool" where
  "isspace c \<longleftrightarrow> c \<in> set [CHR 0x09, CHR 0x0A, CHR 0x0B, CHR 0x0C, CHR 0x0D, CHR 0x1C,
                          CHR 0x1D, CHR 0x1E, CHR 0x1F, CHR 0x20, CHR 0x85, CHR 0xA0]"

definition strip :: "string \<Rightarrow> string" where
  "strip s = rev (dropWhile isspace (rev (dropWhile isspace s)))"

text \<open>\<^verbatim>\<open>str.replace(old, new)\<close> for a single character \<open>old\<close>.\<close>

definition replace_char :: "char \<Rightarrow> char \<Rightarrow> string \<Rightarrow> string" where
  "replace_char old new s = map (\<lambda>c. if c = old then new else c) s"

text \<open>\<^verbatim>\<open>str(i)\<close> for an integer: decimal digits, with a sign when negative.\<close>

definition digit :: "nat \<Rightarrow> char" where
  "digit d = ''0123456789'' ! d"

fun str_nat :: "nat \<Rightarrow> string" where
  "str_nat n = (if n < 10 then [digit n] else str_nat (n div 10) @ [digit (n mod 10)])"

declare str_nat.simps [simp del]

definition str_int :: "int \<Rightarrow> string" where
  "str_int i = (if i < 0 then CHR ''-'' # str_nat (nat (- i)) else str_nat (nat i))"

text \<open>\<^verbatim>\<open>urllib.parse.unquote\<close>: every \<^verbatim>\<open>%XX\<close> with two hexadecimal digits becomes the
  byte \<open>XX\<close>; a \<^verbatim>\<open>%\<close> not followed by two hexadecimal digits stays. A byte below 0x80
  is the character Python returns. For bytes from 0x80 on Python decodes the byte
  sequence as UTF-8 (replacing what is invalid), which can give code points beyond 255:
  here such a byte stays one character, and no theorem depends on it.\<close>

definition hexval :: "char \<Rightarrow> nat option" where
  "hexval c = map_of (zip ''0123456789abcdef'' [0..<16] @ zip ''ABCDEF'' [10..<16]) c"

fun unquote :: "string \<Rightarrow> string" where
  "unquote [] = []"
| "unquote (c # cs) =
     (if c = CHR ''%'' then
        (case cs of
           h # l # rest \<Rightarrow>
             (case (hexval h, hexval l) of
                (Some a, Some b) \<Rightarrow> char_of (16 * a + b) # unquote rest
              | _ \<Rightarrow> c # unquote cs)
         | _ \<Rightarrow> c # unquote cs)
      else c # unquote cs)"

text \<open>\<^verbatim>\<open>os.path.basename\<close> (posixpath): what follows the last \<^verbatim>\<open>/\<close>.\<close>

definition basename :: "string \<Rightarrow> string" where
  "basename p = rev (takeWhile (\<lambda>c. c \<noteq> CHR ''/'') (rev p))"

text \<open>\<^verbatim>\<open>urllib.parse.urlparse(url).path\<close>, after \<^verbatim>\<open>urlsplit\<close> and \<^verbatim>\<open>_splitparams\<close>:
  the scheme is split off at the first colon when what precedes it is a letter followed
  by scheme characters; a netloc introduced by \<^verbatim>\<open>//\<close> runs to the first of \<^verbatim>\<open>/?#\<close> and
  raises ValueError when it holds one square bracket without the other; the fragment and
  then the query are cut off; for a scheme that uses parameters the last segment is cut at
  its first semicolon. Left out: the removal of leading control characters and of tab, CR
  and LF that recent versions do first, and their further validation of the netloc.\<close>

definition ascii_upper :: string where "ascii_upper = ''ABCDEFGHIJKLMNOPQRSTUVWXYZ''"
definition ascii_lower :: string where "ascii_lower = ''abcdefghijklmnopqrstuvwxyz''"

definition lower_char :: "char \<Rightarrow> char" where
  "lower_char c = (case map_of (zip ascii_upper ascii_lower) c of Some l \<Rightarrow> l | None \<Rightarrow> c)"

definition scheme_chars :: string where
  "scheme_chars = ascii_lower @ ascii_upper @ ''0123456789+-.''"

definition uses_params :: "string list" where
  "uses_params = ['''', ''ftp'', ''hdl'', ''prospero'', ''http'', ''imap'', ''https'', ''shttp'',
                  ''rtsp'', ''rtspu'', ''sip'', ''sips'', ''mms'', ''sftp'', ''tel'']"

definition split_scheme :: "string \<Rightarrow> string \<times> string" where
  "split_scheme url =
     (let pre = takeWhile (\<lambda>c. c \<noteq> CHR '':'') url
      in if CHR '':'' \<in> set url \<and> pre \<noteq> [] \<and> hd pre \<in> set (ascii_lower @ ascii_upper)
            \<and> (\<forall>c \<in> set pre. c \<in> set scheme_chars)
         then (map lower_char pre, drop (length pre + 1) url)
         else ('''', url))"

definition split_netloc :: "string \<Rightarrow> exn + string" where
  "split_netloc url =
     (if take 2 url = ''//'' then
        let netloc = takeWhile (\<lambda>c. c \<notin> set ''/?#'') (drop 2 url);
            rest = dropWhile (\<lambda>c. c \<notin> set ''/?#'') (drop 2 url)
        in if (CHR ''['' \<in> set netloc) \<noteq> (CHR '']'' \<in> set netloc)
           then Inl (OtherError ''ValueError'' ''Invalid IPv6 URL'')
           else Inr rest
      else Inr url)"

definition split_params :: "string \<Rightarrow> string" where
  "split_params url =
     (let seg = basename url
      in take (length url - length seg) url @ takeWhile (\<lambda>c. c \<noteq> CHR '';'') seg)"

definition urlparse_path :: "string \<Rightarrow> exn + string" where
  "urlparse_path url0 =
     (let (scheme, url1) = split_scheme url0
      in case split_netloc url1 of
           Inl e \<Rightarrow> Inl e
         | Inr url2 \<Rightarrow>
             let url3 = takeWhile (\<lambda>c. c \<noteq> CHR ''#'') url2;
                 url4 = takeWhile (\<lambda>c. c \<noteq> CHR ''?'') url3
             in if scheme \<in> set uses_params \<and> CHR '';'' \<in> set url4
                then Inr (split_params url4) else Inr url4)"

section \<open>utils.py\<close>

text \<open>The compiled pattern \<^verbatim>\<open>_filename_re\<close>, matched by hand. \<open>ci_prefix lo up s\<close>
  strips a literal given in lower and in upper case, as \<^verbatim>\<open>re.IGNORECASE\<close> matches it on
  these characters.\<close>

fun ci_prefix :: "string \<Rightarrow> string \<Rightarrow> string \<Rightarrow> string option" where
  "ci_prefix [] _ s = Some s"
| "ci_prefix (l # ls) (u # us) (c # cs) = (if c = l \<or> c = u then ci_prefix ls us cs else None)"
| "ci_prefix _ _ _ = None"

text \<open>First alternative, after \<^verbatim>\<open>filename*=\<close>: the greedy \<^verbatim>\<open>.*\<close> (no newline) backtracks
  to the last pair of apostrophes that is followed by a character other than a
  semicolon; group 1 is the longest run without a semicolon from there.\<close>

fun star_group :: "string \<Rightarrow> string option" where
  "star_group [] = None"
| "star_group (c # cs) =
     (let here = (case cs of
                    d # e # _ \<Rightarrow>
                      if c = apostrophe \<and> d = apostrophe \<and> e \<noteq> CHR '';''
                      then Some (takeWhile (\<lambda>x. x \<noteq> CHR '';'') (tl cs)) else None
                  | _ \<Rightarrow> None);
          later = (if c = newline then None else star_group cs)
      in case later of Some g \<Rightarrow> Some g | None \<Rightarrow> here)"

text \<open>Second alternative, after \<^verbatim>\<open>filename=\<close>: an optional double quote, then group 2,
  the longest non-empty run without double quote and semicolon.\<close>

definition plain_group :: "string \<Rightarrow> string option" where
  "plain_group r =
     (let r1 = (case r of c # cs \<Rightarrow> if c = quote_char then cs else r | [] \<Rightarrow> r);
          g = takeWhile (\<lambda>x. x \<noteq> quote_char \<and> x \<noteq> CHR '';'') r1
      in if g = [] then None else Some g)"

text \<open>A match anchored at the start of \<open>s\<close> gives the pair (group 1, group 2); \<open>search\<close>
  returns the match at the leftmost position that has one.\<close>

definition filename_re_match :: "string \<Rightarrow> (string option \<times> string option) option" where
  "filename_re_match s =
     (case (case ci_prefix ''filename*='' ''FILENAME*='' s of
              Some r \<Rightarrow> star_group r | None \<Rightarrow> None) of
        Some g \<Rightarrow> Some (Some g, None)
      | None \<Rightarrow>
          (case (case ci_prefix ''filename='' ''FILENAME='' s of
                   Some r \<Rightarrow> plain_group r | None \<Rightarrow> None) of
             Some g \<Rightarrow> Some (None, Some g)
           | None \<Rightarrow> None))"

fun filename_re_search :: "string \<Rightarrow> (string option \<times> string option) option" where
  "filename_re_search [] = filename_re_match []"
| "filename_re_search (c # cs) =
     (case filename_re_match (c # cs) of Some m \<Rightarrow> Some m | None \<Rightarrow> filename_re_search cs)"

text \<open>Python's \<^verbatim>\<open>a or b\<close> on optional strings: \<open>a\<close> when it is a non-empty string.\<close>

definition py_or :: "string option \<Rightarrow> string option \<Rightarrow> string option" where
  "py_or a b = (case a of Some (x # xs) \<Rightarrow> a | _ \<Rightarrow> b)"

definition illegal_chars :: string where
  "illegal_chars = [backslash, CHR ''/'', CHR '':'', CHR ''*'', CHR ''?'', quote_char,
                    CHR ''<'', CHR ''>'', CHR ''|'']"

definition sanitize_filename :: "string \<Rightarrow> string" where
  "sanitize_filename name0 =
     (let name1 = replace_char carriage_return CHR '' ''
                    (replace_char newline CHR '' '' (strip name0));
          name2 = map (\<lambda>c. if c \<in> set illegal_chars then CHR ''_'' else c) name1
      in if name2 = [] then ''download'' else name2)"

text \<open>\<^verbatim>\<open>guess_filename(url, headers, default)\<close>. The optional mapping is an optional
  association list read with \<open>map_of\<close>. \<open>header_candidate\<close> is step 1 of the function
  down to \<^verbatim>\<open>if candidate:\<close>: it gives the candidate when all four tests pass.\<close>

type_synonym headers = "(string \<times> string) list"

definition header_candidate :: "headers option \<Rightarrow> string option" where
  "header_candidate hs =
     (case hs of
        None \<Rightarrow> None
      | Some h \<Rightarrow>
          if h = [] then None
          else
            (case py_or (map_of h ''Content-Disposition'') (map_of h ''content-disposition'') of
               Some (c # cd) \<Rightarrow>
                 (case filename_re_search (c # cd) of
                    Some (g1, g2) \<Rightarrow>
                      (case py_or g1 g2 of
                         Some (x # candidate) \<Rightarrow> Some (x # candidate)
                       | _ \<Rightarrow> None)
                  | None \<Rightarrow> None)
             | _ \<Rightarrow> None))"

definition guess_filename :: "string \<Rightarrow> headers option \<Rightarrow> string \<Rightarrow> exn + string" where
  "guess_filename url hs dflt =
     (case header_candidate hs of
        Some candidate \<Rightarrow> Inr (sanitize_filename (unquote candidate))
      | None \<Rightarrow>
          (case urlparse_path url of
             Inl e \<Rightarrow> Inl e
           | Inr path \<Rightarrow>
               let name = basename path
               in if name = [] then Inr dflt
                  else Inr (sanitize_filename (unquote name))))"

subsection \<open>pathlib\<close>

text \<open>A \<^verbatim>\<open>Path\<close> is the list of its \<^verbatim>\<open>parts\<close> (posix flavour; a root is the part
  \<^verbatim>\<open>/\<close>). \<open>joinpath p s\<close> is \<^verbatim>\<open>p / s\<close> for a string \<open>s\<close>: the string is split at
  slashes, empty and single-dot segments are dropped, and a string that starts with a
  slash replaces \<open>p\<close>. A double-dot segment is kept as it is.\<close>

type_synonym path = "string list"

fun split_slash :: "string \<Rightarrow> string list" where
  "split_slash [] = [[]]"
| "split_slash (c # cs) =
     (if c = CHR ''/'' then [] # split_slash cs
      else (case split_slash cs of x # xs \<Rightarrow> (c # x) # xs | [] \<Rightarrow> [[c]]))"

definition parse_parts :: "string \<Rightarrow> path" where
  "parse_parts s =
     (if take 1 s = ''/'' then [''/''] else []) @
     filter (\<lambda>seg. seg \<noteq> [] \<and> seg \<noteq> ''.'') (split_slash s)"

definition joinpath :: "path \<Rightarrow> string \<Rightarrow> path" where
  "joinpath p s = (let q = parse_parts s in if take 1 q = [''/''] then q else p @ q)"

definition path_name :: "path \<Rightarrow> string" where
  "path_name p = (if p = [] \<or> p = [''/''] then [] else last p)"

definition path_parent :: "path \<Rightarrow> path" where
  "path_parent p = (if p = [] \<or> p = [''/''] then p else butlast p)"

text \<open>\<^verbatim>\<open>suffix\<close> and \<^verbatim>\<open>stem\<close>: with \<open>i\<close> the index of the last dot of the name, the suffix
  is \<^verbatim>\<open>name[i:]\<close> and the stem \<^verbatim>\<open>name[:i]\<close> when \<open>0 < i < len(name) - 1\<close>; otherwise the
  suffix is empty and the stem is the name.\<close>

definition after_last_dot :: "string \<Rightarrow> string" where
  "after_last_dot name = rev (takeWhile (\<lambda>c. c \<noteq> CHR ''.'') (rev name))"

definition has_suffix :: "string \<Rightarrow> bool" where
  "has_suffix name \<longleftrightarrow>
     CHR ''.'' \<in> set name \<and> after_last_dot name \<noteq> [] \<and>
     length (after_last_dot name) + 1 < length name"

definition path_suffix :: "path \<Rightarrow> string" where
  "path_suffix p =
     (let name = path_name p
      in if has_suffix name then CHR ''.'' # after_last_dot name else [])"

definition path_stem :: "path \<Rightarrow> string" where
  "path_stem p =
     (let name = path_name p
      in if has_suffix name then take (length name - length (after_last_dot name) - 1) name
         else name)"

subsection \<open>dedupe\_path\<close>

text \<open>\<open>files\<close> lists the paths for which \<^verbatim>\<open>exists()\<close> answers true. The candidate
  \<^verbatim>\<open>parent / f"{stem}({i}){suffix}"\<close> is one more part: stem and suffix come from a part,
  so the segment has no slash, and it is neither empty nor a dot. The counter starts at
  1 and only grows, so it is a \<open>nat\<close>.\<close>

definition candidate :: "path \<Rightarrow> string \<Rightarrow> string \<Rightarrow> nat \<Rightarrow> path" where
  "candidate parent stem suffix i = parent @ [stem @ ''('' @ str_nat i @ '')'' @ suffix]"

lemma str_nat_nonempty: "str_nat n \<noteq> []"
  by (subst str_nat.simps) simp

lemma digit_inj: "a < 10 \<Longrightarrow> b < 10 \<Longrightarrow> digit a = digit b \<Longrightarrow> a = b"
proof -
  assume a: "a < 10" and b: "b < 10" and e: "digit a = digit b"
  have d: "distinct ''0123456789''" by simp
  have "length ''0123456789'' = 10" by simp
  with a b e d show ?thesis
    unfolding digit_def by (metis nth_eq_iff_index_eq)
qed

lemma str_nat_inj: "str_nat n = str_nat m \<Longrightarrow> n = m"
proof (induction n arbitrary: m rule: str_nat.induct)
  case (1 n)
  show ?case
  proof (cases "n < 10")
    case True
    then have sn: "str_nat n = [digit n]" by (subst str_nat.simps) simp
    show ?thesis
    proof (cases "m < 10")
      case mt: True
      then have "str_nat m = [digit m]" by (subst str_nat.simps) simp
      with sn "1.prems" have "digit n = digit m" by simp
      then show ?thesis using True mt digit_inj by blast
    next
      case False
      then have "str_nat m = str_nat (m div 10) @ [digit (m mod 10)]"
        by (subst str_nat.simps) simp
      with sn "1.prems" have "str_nat (m div 10) = []" by simp
      then show ?thesis using str_nat_nonempty by blast
    qed
  next
    case False
    then have sn: "str_nat n = str_nat (n div 10) @ [digit (n mod 10)]"
      by (subst str_nat.simps) simp
    show ?thesis
    proof (cases "m < 10")
      case True
      then have "str_nat m = [digit m]" by (subst str_nat.simps) simp
      with sn "1.prems" have "str_nat (n div 10) = []" by simp
      then show ?thesis using str_nat_nonempty by blast
    next
      case mf: False
      then have "str_nat m = str_nat (m div 10) @ [digit (m mod 10)]"
        by (subst str_nat.simps) simp
      with sn "1.prems" have e1: "str_nat (n div 10) = str_nat (m div 10)"
        and e2: "digit (n mod 10) = digit (m mod 10)" by simp_all
      from "1.IH" [OF False e1] have "n div 10 = m div 10" .
      moreover from e2 have "n mod 10 = m mod 10"
        using digit_inj [of "n mod 10" "m mod 10"] by simp
      ultimately show ?thesis by (metis div_mult_mod_eq)
    qed
  qed
qed

lemma candidate_inj: "candidate parent stem suffix i = candidate parent stem suffix j \<Longrightarrow> i = j"
  by (simp add: candidate_def str_nat_inj)

function dedupe_loop :: "path list \<Rightarrow> path \<Rightarrow> string \<Rightarrow> string \<Rightarrow> nat \<Rightarrow> path" where
  "dedupe_loop files parent stem suffix i =
     (let c = candidate parent stem suffix i
      in if c \<notin> set files then c else dedupe_loop files parent stem suffix (i + 1))"
  by pat_completeness auto
termination
proof (relation "measure (\<lambda>(files, parent, stem, suffix, i).
                   card {q \<in> set files. \<exists>j\<ge>i. q = candidate parent stem suffix j})")
  show "wf (measure (\<lambda>(files, parent, stem, suffix, i).
              card {q \<in> set files. \<exists>j\<ge>i. q = candidate parent stem suffix j}))"
    by simp
next
  fix files :: "path list" and parent :: path and stem suffix :: string and i :: nat and c
  assume c: "c = candidate parent stem suffix i" and taken: "\<not> c \<notin> set files"
  let ?A = "\<lambda>k. {q \<in> set files. \<exists>j\<ge>k. q = candidate parent stem suffix j}"
  have "c \<in> ?A i" using c taken by auto
  moreover have "c \<notin> ?A (i + 1)"
  proof
    assume "c \<in> ?A (i + 1)"
    then obtain j where "j \<ge> i + 1" "c = candidate parent stem suffix j" by auto
    with c have "i = j" using candidate_inj by metis
    with \<open>j \<ge> i + 1\<close> show False by simp
  qed
  moreover have "?A (i + 1) \<subseteq> ?A i"
  proof
    fix q assume "q \<in> ?A (i + 1)"
    then obtain j where "q \<in> set files" "j \<ge> i + 1" "q = candidate parent stem suffix j"
      by auto
    then have "q \<in> set files" "j \<ge> i" "q = candidate parent stem suffix j" by simp_all
    then show "q \<in> ?A i" by blast
  qed
  ultimately have "?A (i + 1) \<subset> ?A i" by blast
  then have "card (?A (i + 1)) < card (?A i)"
    by (intro psubset_card_mono) auto
  then show "((files, parent, stem, suffix, i + 1), (files, parent, stem, suffix, i))
             \<in> measure (\<lambda>(files, parent, stem, suffix, i).
                  card {q \<in> set files. \<exists>j\<ge>i. q = candidate parent stem suffix j})"
    by simp
qed

declare dedupe_loop.simps [simp del]

definition dedupe_path :: "path list \<Rightarrow> path \<Rightarrow> path" where
  "dedupe_path files p =
     (if p \<notin> set files then p
      else dedupe_loop files (path_parent p) (path_stem p) (path_suffix p) 1)"

section \<open>downloader.py\<close>

definition RETRIABLE_STATUS :: "int set" where
  "RETRIABLE_STATUS = {429, 500, 502, 503, 504}"

record Result =
  url :: string
  ok :: bool
  path :: "path option"
  status :: "int option"
  attempts :: int
  error :: "string option"

record DownloadManager =
  output_dir :: path
  retries :: int
  timeout :: real
  user_agent :: string
  no_clobber :: bool
  verbose :: bool
  limiter :: RateLimiter
  max_workers :: int

text \<open>\<^verbatim>\<open>DownloadManager.__init__\<close>. \<open>mkdir\<close> is what \<^verbatim>\<open>output_dir.mkdir\<close> raises, if
  anything; \<open>now\<close> is the clock reading of the limiter's constructor. The thread pool's
  constructor rejects a worker count that is not positive.\<close>

definition DownloadManager_init ::
  "exn option \<Rightarrow> real \<Rightarrow> path \<Rightarrow> real \<Rightarrow> int \<Rightarrow> int \<Rightarrow> real \<Rightarrow> string option \<Rightarrow> bool \<Rightarrow> bool
   \<Rightarrow> exn + DownloadManager" where
  "DownloadManager_init mkdir now out r concurrency retr tmo ua nc vb =
     (case mkdir of
        Some e \<Rightarrow> Inl e
      | None \<Rightarrow>
          (case RateLimiter_init r (Some (max r 1)) now of
             Inl e \<Rightarrow> Inl e
           | Inr lmt \<Rightarrow>
               if concurrency \<le> 0
               then Inl (OtherError ''ValueError'' ''max_workers must be greater than 0'')
               else Inr \<lparr>output_dir = out, retries = retr, timeout = tmo,
                         user_agent = (case ua of Some (c # cs) \<Rightarrow> c # cs
                                       | _ \<Rightarrow> ''rlget/0.1 (+https://example.local)''),
                         no_clobber = nc, verbose = vb, limiter = lmt,
                         max_workers = concurrency\<rparr>))"

subsection \<open>\_sleep\_backoff\<close>

text \<open>\<^verbatim>\<open>random.uniform(a, b)\<close> is \<^verbatim>\<open>a + (b - a) * random()\<close>; \<open>x\<close> is the value of
  \<^verbatim>\<open>random()\<close>, a number in the unit interval. \<^verbatim>\<open>2 ** n\<close> is an \<^verbatim>\<open>int\<close> for \<open>n \<ge> 0\<close>, and
  multiplying it by \<^verbatim>\<open>0.5\<close> converts it to a float, which raises OverflowError from
  \<open>2 ** 1024\<close> on. \<open>backoff_delay\<close> is the value of \<^verbatim>\<open>delay\<close> when \<^verbatim>\<open>time.sleep\<close> is
  called, or the exception raised before.\<close>

definition uniform :: "real \<Rightarrow> real \<Rightarrow> real \<Rightarrow> real" where
  "uniform a b x = a + (b - a) * x"

definition two_pow :: "int \<Rightarrow> real" where
  "two_pow n = (if 0 \<le> n then 2 ^ nat n else 1 / 2 ^ nat (- n))"

definition backoff_delay :: "int \<Rightarrow> pyfloat option \<Rightarrow> real \<Rightarrow> exn + pyfloat" where
  "backoff_delay attempt retry_after x =
     (case retry_after of
        Some ra \<Rightarrow> Inr ra
      | None \<Rightarrow>
          if 1024 \<le> attempt - 1
          then Inl (OtherError ''OverflowError'' ''int too large to convert to float'')
          else
            let base = 1 / 2;
                delay0 = base * two_pow (attempt - 1);
                delay1 = delay0 + uniform 0 ((1 / 4) * delay0) x
            in Inr (Finite (min delay1 10)))"

text \<open>\<^verbatim>\<open>time.sleep\<close>: the seconds slept, or the exception raised. It converts its argument
  to the clock type first, then rejects a negative one.\<close>

definition time_sleep :: "pyfloat \<Rightarrow> exn + real" where
  "time_sleep delay =
     (case delay of
        NaN \<Rightarrow> Inl (OtherError ''ValueError'' ''Invalid value NaN (not a number)'')
      | PlusInfinity \<Rightarrow> Inl timestamp_error
      | MinusInfinity \<Rightarrow> Inl timestamp_error
      | Finite secs \<Rightarrow>
          if clock_overflow secs then Inl timestamp_error
          else if secs < 0
          then Inl (OtherError ''ValueError'' ''sleep length must be non-negative'')
          else Inr secs)"

text \<open>\<open>sleep_backoff\<close> returns the delay it has slept, or what it raised.\<close>

definition sleep_backoff :: "int \<Rightarrow> pyfloat option \<Rightarrow> real \<Rightarrow> exn + real" where
  "sleep_backoff attempt retry_after x =
     (case backoff_delay attempt retry_after x of
        Inl e \<Rightarrow> Inl e
      | Inr delay \<Rightarrow> time_sleep delay)"

subsection \<open>\_download\_one\<close>

text \<open>What one attempt meets. Either \<^verbatim>\<open>acquire\<close>, which stands before the \<^verbatim>\<open>try\<close>,
  raises; or \<^verbatim>\<open>urlopen\<close> raises; or it returns a response with a status and header
  items, \<^verbatim>\<open>dedupe_path\<close> sees a file listing, and opening, reading and writing raise an
  exception or none. Every call of \<^verbatim>\<open>acquire\<close> and every request is assumed to come to
  an end.\<close>

datatype outcome =
    AcquireRaises exn
  | Raises exn
  | Responds int headers "path list" "exn option"

record world =
  server :: "int \<Rightarrow> outcome"   \<comment> \<open>the outcome of the attempt with this number\<close>
  rand :: "int \<Rightarrow> real"        \<comment> \<open>the value of \<^verbatim>\<open>random()\<close> in the backoff after it\<close>

datatype event = Get int | Sleep real

text \<open>\<^verbatim>\<open>acquire()\<close> and the body of \<^verbatim>\<open>try:\<close>. \<open>Inl x\<close>: \<^verbatim>\<open>acquire\<close> raised \<open>x\<close> and the
  \<^verbatim>\<open>try\<close> was not entered. \<open>Inr (seen, r)\<close>: the \<^verbatim>\<open>try\<close> was entered; \<open>seen\<close> is the status
  assigned to \<^verbatim>\<open>last_status\<close> before anything else can raise, and \<open>r\<close> the exception
  raised inside the \<^verbatim>\<open>try\<close> or the Result returned. The dictionary built from the
  header items keeps the last value of a repeated key.\<close>

definition attempt_body ::
  "DownloadManager \<Rightarrow> string \<Rightarrow> int \<Rightarrow> outcome \<Rightarrow> exn + (int option \<times> (exn + Result))" where
  "attempt_body m u a oc =
     (case oc of
        AcquireRaises x \<Rightarrow> Inl x
      | Raises e \<Rightarrow> Inr (None, Inl e)
      | Responds st items files wr \<Rightarrow>
          Inr (Some st,
               case guess_filename u (Some (rev items)) ''download'' of
                 Inl e \<Rightarrow> Inl e
               | Inr fname \<Rightarrow>
                   let out_path0 = joinpath (output_dir m) fname;
                       out_path = (if no_clobber m then dedupe_path files out_path0
                                   else out_path0)
                   in case wr of
                        Some e \<Rightarrow> Inl e
                      | None \<Rightarrow> Inr \<lparr>url = u, ok = True, path = Some out_path,
                                      status = Some st, attempts = a, error = None\<rparr>))"

text \<open>The three \<^verbatim>\<open>except\<close> clauses. \<open>Retry d e s\<close>: slept \<open>d\<close> and \<^verbatim>\<open>continue\<close>;
  \<open>Stop e s\<close>: \<^verbatim>\<open>break\<close>; in both, \<open>e\<close> and \<open>s\<close> are the new \<^verbatim>\<open>last_err\<close> and
  \<^verbatim>\<open>last_status\<close>. \<open>Crash x\<close>: the handler itself raised \<open>x\<close>, which no clause catches.\<close>

datatype flow =
    Retry real "string option" "int option"
  | Stop "string option" "int option"
  | Crash exn

definition backoff_then :: "int \<Rightarrow> pyfloat option \<Rightarrow> real \<Rightarrow> string option \<Rightarrow> int option \<Rightarrow> flow" where
  "backoff_then a retry_after x last_err last_status =
     (case sleep_backoff a retry_after x of
        Inl e \<Rightarrow> Crash e
      | Inr d \<Rightarrow> Retry d last_err last_status)"

text \<open>The inner \<^verbatim>\<open>try\<close> of the first clause: the value of \<^verbatim>\<open>retry_after\<close>.\<close>

definition parse_retry_after :: "retry_after_header \<Rightarrow> pyfloat option" where
  "parse_retry_after ra =
     (case ra of
        Absent \<Rightarrow> None
      | Malformed \<Rightarrow> None
      | Seconds secs \<Rightarrow> Some (Finite secs)
      | SecondsInf \<Rightarrow> Some PlusInfinity
      | SecondsMinusInf \<Rightarrow> Some MinusInfinity
      | SecondsNaN \<Rightarrow> Some NaN)"

definition handle :: "int \<Rightarrow> real \<Rightarrow> int \<Rightarrow> string option \<Rightarrow> int option \<Rightarrow> exn \<Rightarrow> flow" where
  "handle retr x a last_err last_status e =
     (case e of
        HTTPError code reason ra \<Rightarrow>
          let retry_after = parse_retry_after ra
          in if code \<in> RETRIABLE_STATUS \<and> a \<le> retr
             then backoff_then a retry_after x last_err (Some code)
             else Stop (Some (''HTTPError '' @ str_int code @ '': '' @ reason)) (Some code)
      | URLError reason \<Rightarrow>
          let err = Some (''URLError: '' @ reason)
          in if a \<le> retr then backoff_then a None x err last_status
             else Stop err last_status
      | OtherError name msg \<Rightarrow>
          let err = Some (name @ '': '' @ msg)
          in if a \<le> retr then backoff_then a None x err last_status
             else Stop err last_status)"

definition failed :: "string \<Rightarrow> int option \<Rightarrow> int \<Rightarrow> string option \<Rightarrow> Result" where
  "failed u last_status a last_err =
     \<lparr>url = u, ok = False, path = None, status = last_status, attempts = a, error = last_err\<rparr>"

text \<open>The \<^verbatim>\<open>while attempts <= self.retries\<close> loop, from the values of \<^verbatim>\<open>attempts\<close>,
  \<^verbatim>\<open>last_err\<close> and \<^verbatim>\<open>last_status\<close> at the loop test. It returns the requests and sleeps
  made, in order, and the Result or the exception that leaves the function.\<close>

function download_loop ::
  "DownloadManager \<Rightarrow> world \<Rightarrow> string \<Rightarrow> int \<Rightarrow> string option \<Rightarrow> int option
   \<Rightarrow> event list \<times> (exn + Result)" where
  "download_loop m w u a0 last_err last_status =
     (if a0 \<le> retries m then
        let a = a0 + 1
        in case attempt_body m u a (server w a) of
             Inl x \<Rightarrow> ([], Inl x)
           | Inr (seen, r) \<Rightarrow>
               let last_status1 = (case seen of Some st \<Rightarrow> Some st | None \<Rightarrow> last_status)
               in case r of
                    Inr res \<Rightarrow> ([Get a], Inr res)
                  | Inl e \<Rightarrow>
                      (case handle (retries m) (rand w a) a last_err last_status1 e of
                         Retry d err st \<Rightarrow>
                           (let (tr, out) = download_loop m w u a err st
                            in (Get a # Sleep d # tr, out))
                       | Stop err st \<Rightarrow> ([Get a], Inr (failed u st a err))
                       | Crash x \<Rightarrow> ([Get a], Inl x))
      else ([], Inr (failed u last_status a0 last_err)))"
  by pat_completeness auto
termination
  by (relation "measure (\<lambda>(m, w, u, a0, last_err, last_status). nat (retries m + 1 - a0))") auto

declare download_loop.simps [simp del]

definition download_one :: "DownloadManager \<Rightarrow> world \<Rightarrow> string \<Rightarrow> event list \<times> (exn + Result)" where
  "download_one m w u = download_loop m w u 0 None None"

subsection \<open>download\_many\<close>

text \<open>One future per URL, in submission order; \<open>ws i\<close> is the world of the \<open>i\<close>-th
  future and \<open>finish i\<close> the moment it completes. \<^verbatim>\<open>as_completed\<close> hands the futures
  over by completion time, and \<^verbatim>\<open>fut.result()\<close> returns the Result or raises what the
  worker raised, which ends \<^verbatim>\<open>download_many\<close>.\<close>

fun collect :: "(exn + 'a) list \<Rightarrow> exn + 'a list" where
  "collect [] = Inr []"
| "collect (x # xs) =
     (case x of
        Inl e \<Rightarrow> Inl e
      | Inr r \<Rightarrow> (case collect xs of Inl e \<Rightarrow> Inl e | Inr rs \<Rightarrow> Inr (r # rs)))"

definition download_many ::
  "DownloadManager \<Rightarrow> (nat \<Rightarrow> world) \<Rightarrow> (nat \<Rightarrow> real) \<Rightarrow> string list \<Rightarrow> exn + Result list" where
  "download_many m ws finish urls =
     (let futures = map (\<lambda>i. snd (download_one m (ws i) (urls ! i))) [0..<length urls];
          completed = sort_key finish [0..<length urls]
      in collect (map (\<lambda>i. futures ! i) completed))"

subsection \<open>cli.py\<close>

text \<open>\<^verbatim>\<open>main\<close> with the parsed arguments: the manager is constructed, then the URLs are
  downloaded. It returns the requests and sleeps of every worker (none when the
  constructor raises) and the exit code or the exception that leaves \<^verbatim>\<open>main\<close>.\<close>

definition main ::
  "exn option \<Rightarrow> real \<Rightarrow> (nat \<Rightarrow> world) \<Rightarrow> (nat \<Rightarrow> real)
   \<Rightarrow> path \<Rightarrow> real \<Rightarrow> int \<Rightarrow> int \<Rightarrow> real \<Rightarrow> string option \<Rightarrow> bool \<Rightarrow> bool \<Rightarrow> string list
   \<Rightarrow> event list list \<times> (exn + int)" where
  "main mkdir now ws finish out r concurrency retr tmo ua nc vb urls =
     (case DownloadManager_init mkdir now out r concurrency retr tmo ua nc vb of
        Inl e \<Rightarrow> ([], Inl e)
      | Inr mgr \<Rightarrow>
          (map (\<lambda>i. fst (download_one mgr (ws i) (urls ! i))) [0..<length urls],
           case download_many mgr ws finish urls of
             Inl e \<Rightarrow> Inl e
           | Inr results \<Rightarrow>
               Inr (if length (filter ok results) = length results then 0 else 1)))"

section \<open>Notions used to state the properties\<close>

text \<open>The filename that the pattern extracts from the Content-Disposition header, under
  either of the two spellings of the key that \<^verbatim>\<open>guess_filename\<close> looks up.\<close>

definition header_filename :: "headers option \<Rightarrow> string option" where
  "header_filename hs =
     (case hs of
        None \<Rightarrow> None
      | Some h \<Rightarrow>
          (case py_or (map_of h ''Content-Disposition'') (map_of h ''content-disposition'') of
             None \<Rightarrow> None
           | Some cd \<Rightarrow>
               (case filename_re_search cd of
                  None \<Rightarrow> None
                | Some (g1, g2) \<Rightarrow> py_or g1 g2)))"

text \<open>The place a path denotes, read lexically as \<^verbatim>\<open>os.path.normpath\<close> does: a double
  dot cancels the part before it, except at the root and at the start of a relative
  path. \<open>direct_child dir p\<close>: the place of \<open>p\<close> is an entry of the directory \<open>dir\<close>.\<close>

definition resolve_step :: "path \<Rightarrow> string \<Rightarrow> path" where
  "resolve_step acc s =
     (if s = ''..'' then
        (if acc = [] \<or> last acc = ''..'' then acc @ [s]
         else if acc = [''/''] then acc
         else butlast acc)
      else acc @ [s])"

definition resolve :: "path \<Rightarrow> path" where
  "resolve p = foldl resolve_step [] p"

definition direct_child :: "path \<Rightarrow> path \<Rightarrow> bool" where
  "direct_child dir p \<longleftrightarrow>
     (let q = resolve p
      in q \<noteq> [] \<and> q \<noteq> [''/''] \<and> last q \<noteq> ''..'' \<and> butlast q = resolve dir)"

text \<open>The number of requests in a trace; the message that the handlers record for an
  exception; the status that an attempt leaves in \<^verbatim>\<open>last_status\<close>, if any; and the
  most recent such status among the attempts \<open>1, \<dots>, n\<close>.\<close>

fun is_get :: "event \<Rightarrow> bool" where
  "is_get (Get _) = True"
| "is_get (Sleep _) = False"

definition requests :: "event list \<Rightarrow> int" where
  "requests tr = int (length (filter is_get tr))"

fun error_text :: "exn \<Rightarrow> string" where
  "error_text (HTTPError code reason ra) = ''HTTPError '' @ str_int code @ '': '' @ reason"
| "error_text (URLError reason) = ''URLError: '' @ reason"
| "error_text (OtherError name msg) = name @ '': '' @ msg"

definition attempt_status :: "DownloadManager \<Rightarrow> world \<Rightarrow> string \<Rightarrow> int \<Rightarrow> int option" where
  "attempt_status m w u a =
     (case attempt_body m u a (server w a) of
        Inr (seen, Inl (HTTPError code reason ra)) \<Rightarrow> Some code
      | Inr (seen, _) \<Rightarrow> seen
      | Inl x \<Rightarrow> None)"

fun known_status :: "DownloadManager \<Rightarrow> world \<Rightarrow> string \<Rightarrow> nat \<Rightarrow> int option" where
  "known_status m w u 0 = None"
| "known_status m w u (Suc n) =
     (case attempt_status m w u (int (Suc n)) of
        Some st \<Rightarrow> Some st
      | None \<Rightarrow> known_status m w u n)"

text \<open>What the three handlers read off an exception: the new \<^verbatim>\<open>last_status\<close>, the
  value of \<^verbatim>\<open>retry_after\<close>, whether its class or status allows a retry, and the
  \<^verbatim>\<open>last_err\<close> in force when the loop goes round again.\<close>

fun exn_status :: "exn \<Rightarrow> int option \<Rightarrow> int option" where
  "exn_status (HTTPError code reason ra) ls = Some code"
| "exn_status (URLError reason) ls = ls"
| "exn_status (OtherError name msg) ls = ls"

fun exn_retry_after :: "exn \<Rightarrow> pyfloat option" where
  "exn_retry_after (HTTPError code reason ra) = parse_retry_after ra"
| "exn_retry_after (URLError reason) = None"
| "exn_retry_after (OtherError name msg) = None"

fun exn_retriable :: "exn \<Rightarrow> bool" where
  "exn_retriable (HTTPError code reason ra) \<longleftrightarrow> code \<in> RETRIABLE_STATUS"
| "exn_retriable (URLError reason) \<longleftrightarrow> True"
| "exn_retriable (OtherError name msg) \<longleftrightarrow> True"

fun exn_err :: "exn \<Rightarrow> string option \<Rightarrow> string option" where
  "exn_err (HTTPError code reason ra) le = le"
| "exn_err (URLError reason) le = Some (error_text (URLError reason))"
| "exn_err (OtherError name msg) le = Some (error_text (OtherError name msg))"

text \<open>The backoff can sleep: a Retry-After value is finite, not negative and within the
  clock type; without one, the attempt count is below 1025 and the value of
  \<^verbatim>\<open>random()\<close> is not negative (it never is).\<close>

definition sleepable :: "real \<Rightarrow> bool" where
  "sleepable secs \<longleftrightarrow> 0 \<le> secs \<and> \<not> clock_overflow secs"

definition can_sleep :: "int \<Rightarrow> pyfloat option \<Rightarrow> real \<Rightarrow> bool" where
  "can_sleep a retry_after x \<longleftrightarrow>
     (case retry_after of
        Some (Finite secs) \<Rightarrow> sleepable secs
      | Some _ \<Rightarrow> False
      | None \<Rightarrow> a \<le> 1024 \<and> 0 \<le> x)"

text \<open>The limiter after the refills of successive passes.\<close>

definition refills :: "real list \<Rightarrow> RateLimiter \<Rightarrow> RateLimiter" where
  "refills nows s = foldl (\<lambda>s now. refill now s) s nows"

text \<open>The manager that \<^verbatim>\<open>main\<close> constructs from the defaults of the command line, for a
  given \<^verbatim>\<open>--retries\<close>, with the clock at 0.\<close>

definition cli_manager :: "int \<Rightarrow> DownloadManager" where
  "cli_manager retr =
     \<lparr>output_dir = [''downloads''], retries = retr, timeout = 20,
      user_agent = ''rlget/0.1 (+https://example.local)'', no_clobber = False,
      verbose = False, limiter = \<lparr>rate = 5, capacity = 5, tokens = 5, last_t = 0\<rparr>,
      max_workers = 4\<rparr>"

section \<open>Properties of the rate limiter\<close>

lemma refill_fields [simp]:
  "capacity (refill now s) = capacity s" "rate (refill now s) = rate s"
  by (simp_all add: refill_def Let_def)

lemma refill_le_capacity: "tokens s \<le> capacity s \<Longrightarrow> tokens (refill now s) \<le> capacity s"
  by (simp add: refill_def Let_def)

lemma refill_nonneg:
  assumes "0 < rate s" "0 \<le> capacity s" "0 \<le> tokens s"
  shows "0 \<le> tokens (refill now s)"
proof (cases "now - last_t s \<le> 0")
  case True
  then show ?thesis using assms by (simp add: refill_def)
next
  case False
  then have "0 \<le> (now - last_t s) * rate s" using assms(1) by simp
  then show ?thesis using False assms by (simp add: refill_def Let_def)
qed

lemma try_acquire_fields [simp]:
  "capacity (snd (try_acquire now s)) = capacity s" "rate (snd (try_acquire now s)) = rate s"
  by (simp_all add: try_acquire_def Let_def)

lemma acquire_fields:
  "acquire nows s = Some (Inr s') \<Longrightarrow> capacity s' = capacity s \<and> rate s' = rate s"
  by (induction nows arbitrary: s) (auto simp: Let_def split: if_splits)

lemma acquire_le_capacity:
  "acquire nows s = Some (Inr s') \<Longrightarrow> tokens s \<le> capacity s \<Longrightarrow> tokens s' \<le> capacity s'"
proof (induction nows arbitrary: s)
  case Nil
  then show ?case by simp
next
  case (Cons now nows)
  have le: "tokens (refill now s) \<le> capacity (refill now s)"
    using Cons.prems(2) by (simp add: refill_le_capacity)
  show ?case
  proof (cases "tokens (refill now s) \<ge> 1")
    case True
    then show ?thesis using Cons.prems(1) le by (auto simp: Let_def)
  next
    case False
    then have "acquire nows (refill now s) = Some (Inr s')"
      using Cons.prems(1) by (simp add: Let_def split: if_splits)
    then show ?thesis using Cons.IH le by blast
  qed
qed

lemma acquire_nonneg: "acquire nows s = Some (Inr s') \<Longrightarrow> 0 \<le> tokens s'"
  by (induction nows arbitrary: s) (auto simp: Let_def split: if_splits)

lemma reachable_fields:
  "reachable s0 s \<Longrightarrow> capacity s = capacity s0 \<and> rate s = rate s0"
  by (induction rule: reachable.induct) (auto dest: acquire_fields)

lemma reachable_le_capacity:
  "reachable s0 s \<Longrightarrow> tokens s0 \<le> capacity s0 \<Longrightarrow> tokens s \<le> capacity s"
proof (induction rule: reachable.induct)
  case r_init
  then show ?case by simp
next
  case (r_refill s now)
  then show ?case by (simp add: refill_le_capacity)
next
  case (r_try s now)
  then have "tokens (refill now s) \<le> capacity s" by (simp add: refill_le_capacity)
  then show ?case by (simp add: try_acquire_def Let_def)
next
  case (r_acquire s nows s')
  then show ?case using acquire_le_capacity by blast
qed

lemma reachable_nonneg:
  "reachable s0 s \<Longrightarrow> 0 < rate s0 \<Longrightarrow> 0 \<le> capacity s0 \<Longrightarrow> 0 \<le> tokens s0 \<Longrightarrow> 0 \<le> tokens s"
proof (induction rule: reachable.induct)
  case r_init
  then show ?case by simp
next
  case (r_refill s now)
  then show ?case using reachable_fields [of s0 s] by (simp add: refill_nonneg)
next
  case (r_try s now)
  then have "0 \<le> tokens (refill now s)"
    using reachable_fields [of s0 s] by (simp add: refill_nonneg)
  then show ?case by (simp add: try_acquire_def Let_def)
next
  case (r_acquire s nows s')
  then show ?case using acquire_nonneg by blast
qed

lemma refill_tokens:
  "tokens (refill now s) =
     (if now - last_t s \<le> 0 then tokens s
      else min (capacity s) (tokens s + (now - last_t s) * rate s))"
  by (simp add: refill_def Let_def)

lemma refills_Cons: "refills (now # nows) s = refills nows (refill now s)"
  by (simp add: refills_def)

lemma acquire_consumes:
  "acquire nows s = Some (Inr s') \<Longrightarrow>
   \<exists>k < length nows.
      1 \<le> tokens (refills (take (Suc k) nows) s)
      \<and> s' = (refills (take (Suc k) nows) s)
               \<lparr>tokens := tokens (refills (take (Suc k) nows) s) - 1\<rparr>
      \<and> (\<forall>j < k. tokens (refills (take (Suc j) nows) s) < 1)"
proof (induction nows arbitrary: s)
  case Nil
  then show ?case by simp
next
  case (Cons now nows)
  let ?s1 = "refill now s"
  have one: "refills (take (Suc 0) (now # nows)) s = ?s1" by (simp add: refills_def)
  show ?case
  proof (cases "tokens ?s1 \<ge> 1")
    case True
    then have "s' = ?s1\<lparr>tokens := tokens ?s1 - 1\<rparr>" using Cons.prems by (simp add: Let_def)
    with True one show ?thesis by (intro exI [of _ 0]) simp
  next
    case False
    then have "acquire nows ?s1 = Some (Inr s')"
      using Cons.prems by (simp add: Let_def split: if_splits)
    from Cons.IH [OF this] obtain k where k: "k < length nows"
      "1 \<le> tokens (refills (take (Suc k) nows) ?s1)"
      "s' = (refills (take (Suc k) nows) ?s1)
               \<lparr>tokens := tokens (refills (take (Suc k) nows) ?s1) - 1\<rparr>"
      "\<forall>j < k. tokens (refills (take (Suc j) nows) ?s1) < 1"
      by blast
    have shift: "\<And>i. refills (take (Suc (Suc i)) (now # nows)) s = refills (take (Suc i) nows) ?s1"
      by (simp add: refills_Cons)
    have before: "\<forall>j < Suc k. tokens (refills (take (Suc j) (now # nows)) s) < 1"
    proof (intro allI impI)
      fix j assume j: "j < Suc k"
      show "tokens (refills (take (Suc j) (now # nows)) s) < 1"
      proof (cases j)
        case 0
        with False one show ?thesis by simp
      next
        case (Suc i)
        with j k(4) have "tokens (refills (take (Suc i) nows) ?s1) < 1" by simp
        with Suc shift show ?thesis by simp
      qed
    qed
    have "Suc k < length (now # nows)" using k(1) by simp
    moreover have "1 \<le> tokens (refills (take (Suc (Suc k)) (now # nows)) s)"
      using k(2) shift by simp
    moreover have "s' = (refills (take (Suc (Suc k)) (now # nows)) s)
               \<lparr>tokens := tokens (refills (take (Suc (Suc k)) (now # nows)) s) - 1\<rparr>"
      using k(3) shift by simp
    ultimately show ?thesis using before by blast
  qed
qed

lemma refill_eq:
  "refill now s =
     (if now - last_t s \<le> 0 then s
      else s\<lparr>last_t := now, tokens := min (capacity s) (tokens s + (now - last_t s) * rate s)\<rparr>)"
  by (simp add: refill_def Let_def)

lemma RateLimiter_init_Inr:
  "RateLimiter_init r cap now = Inr s \<Longrightarrow>
   0 < r \<and> rate s = r \<and> tokens s = capacity s \<and> last_t s = now
   \<and> capacity s = (case cap of Some c \<Rightarrow> c | None \<Rightarrow> r)"
  by (auto simp: RateLimiter_init_def Let_def split: if_splits)

text \<open>
  Claim C5, as stated: the token count always stays in \<open>[0, capacity]\<close>. The constructor
  checks the rate only: a limiter built with a negative capacity starts with that many
  tokens, below zero.
\<close>

theorem tokens_in_range_counterexample:
  "RateLimiter_init 1 (Some (- 1)) 0 = Inr \<lparr>rate = 1, capacity = - 1, tokens = - 1, last_t = 0\<rparr>
   \<and> \<not> 0 \<le> tokens \<lparr>rate = 1, capacity = - 1, tokens = - 1, last_t = 0\<rparr>"
  by (simp add: RateLimiter_init_def Let_def)

text \<open>
  Claim C5, amended. In every state that a constructed limiter reaches through refills,
  \<^verbatim>\<open>try_acquire\<close> and \<^verbatim>\<open>acquire\<close> in any interleaving, the tokens never exceed the
  capacity, and they stay in \<open>[0, capacity]\<close> when the capacity given to the constructor
  is not negative (the capacity \<open>max(rate, 1.0)\<close> of the download manager is at least 1).
  A refill with positive elapsed time records the time and sets the tokens to the
  smaller of the capacity and tokens plus elapsed time times rate, and changes nothing
  otherwise. \<^verbatim>\<open>try_acquire\<close> refills and then subtracts exactly 1 when at least 1 token is
  there, and subtracts nothing otherwise. An \<^verbatim>\<open>acquire\<close> that returns has refilled once
  per pass, found less than 1 token in every pass but the last, and at least 1 in the
  last, from which it subtracted exactly 1. So the count after a consumption is never
  negative, whatever the capacity.
\<close>

theorem tokens_invariant:
  assumes init: "RateLimiter_init r cap now0 = Inr s0" and reach: "reachable s0 s"
  shows "tokens s \<le> capacity s
    \<and> (0 \<le> capacity s0 \<longrightarrow> 0 \<le> tokens s)
    \<and> refill now s =
        (if now - last_t s \<le> 0 then s
         else s\<lparr>last_t := now,
                tokens := min (capacity s) (tokens s + (now - last_t s) * rate s)\<rparr>)
    \<and> tokens (refill now s) \<le> capacity s
    \<and> try_acquire now s =
        (if 1 \<le> tokens (refill now s)
         then (True, (refill now s)\<lparr>tokens := tokens (refill now s) - 1\<rparr>)
         else (False, refill now s))
    \<and> (fst (try_acquire now s) \<longrightarrow> 0 \<le> tokens (snd (try_acquire now s)))
    \<and> (\<forall>s'. acquire nows s = Some (Inr s') \<longrightarrow>
          0 \<le> tokens s' \<and>
          (\<exists>k < length nows.
              1 \<le> tokens (refills (take (Suc k) nows) s)
              \<and> s' = (refills (take (Suc k) nows) s)
                       \<lparr>tokens := tokens (refills (take (Suc k) nows) s) - 1\<rparr>
              \<and> (\<forall>j < k. tokens (refills (take (Suc j) nows) s) < 1)))"
proof -
  from init have i: "0 < rate s0" "tokens s0 = capacity s0"
    using RateLimiter_init_Inr by fastforce+
  have le: "tokens s \<le> capacity s" using reach i by (simp add: reachable_le_capacity)
  moreover have "0 \<le> capacity s0 \<longrightarrow> 0 \<le> tokens s"
    using reach i by (simp add: reachable_nonneg)
  moreover have "tokens (refill now s) \<le> capacity s" using le by (rule refill_le_capacity)
  moreover have "try_acquire now s =
        (if 1 \<le> tokens (refill now s)
         then (True, (refill now s)\<lparr>tokens := tokens (refill now s) - 1\<rparr>)
         else (False, refill now s))"
    by (simp add: try_acquire_def Let_def)
  moreover have "fst (try_acquire now s) \<longrightarrow> 0 \<le> tokens (snd (try_acquire now s))"
    by (simp add: try_acquire_def Let_def)
  moreover have "\<forall>s'. acquire nows s = Some (Inr s') \<longrightarrow>
          0 \<le> tokens s' \<and>
          (\<exists>k < length nows.
              1 \<le> tokens (refills (take (Suc k) nows) s)
              \<and> s' = (refills (take (Suc k) nows) s)
                       \<lparr>tokens := tokens (refills (take (Suc k) nows) s) - 1\<rparr>
              \<and> (\<forall>j < k. tokens (refills (take (Suc j) nows) s) < 1))"
    using acquire_nonneg acquire_consumes by blast
  ultimately show ?thesis using refill_eq by blast
qed

theorem tokens_invariant_witness:
  "RateLimiter_init 2 None 0 = Inr \<lparr>rate = 2, capacity = 2, tokens = 2, last_t = 0\<rparr>
   \<and> reachable \<lparr>rate = 2, capacity = 2, tokens = 2, last_t = 0\<rparr>
        (snd (try_acquire 1 \<lparr>rate = 2, capacity = 2, tokens = 2, last_t = 0\<rparr>))
   \<and> tokens (snd (try_acquire 1 \<lparr>rate = 2, capacity = 2, tokens = 2, last_t = 0\<rparr>)) \<le> 2
   \<and> 0 \<le> tokens (snd (try_acquire 1 \<lparr>rate = 2, capacity = 2, tokens = 2, last_t = 0\<rparr>))
   \<and> acquire [1] \<lparr>rate = 2, capacity = 2, tokens = 2, last_t = 0\<rparr>
       = Some (Inr \<lparr>rate = 2, capacity = 2, tokens = 1, last_t = 1\<rparr>)
   \<and> 0 \<le> tokens \<lparr>rate = 2, capacity = 2, tokens = 1, last_t = 1\<rparr>"
proof -
  let ?s0 = "\<lparr>rate = 2, capacity = 2, tokens = 2, last_t = 0\<rparr>"
  let ?s' = "\<lparr>rate = 2, capacity = 2, tokens = 1, last_t = 1\<rparr>"
  have i: "RateLimiter_init 2 None 0 = Inr ?s0" by (simp add: RateLimiter_init_def Let_def)
  have r: "reachable ?s0 (snd (try_acquire 1 ?s0))" by (rule r_try) (rule r_init)
  have a: "acquire [1] ?s0 = Some (Inr ?s')" by (simp add: refill_def Let_def)
  have t: "tokens (snd (try_acquire 1 ?s0)) \<le> 2 \<and> 0 \<le> tokens (snd (try_acquire 1 ?s0))"
    using tokens_invariant [OF i r, of 1 "[]"] by simp
  have "0 \<le> tokens ?s'"
    using tokens_invariant [OF i r_init, of 1 "[1]"] a by blast
  with i r a t show ?thesis by blast
qed

text \<open>With a rate below about \<open>1.1e-10\<close> the wait of an empty bucket overflows the clock
  type: \<^verbatim>\<open>acquire\<close> raises instead of waiting.\<close>

lemma acquire_tiny_rate_raises:
  "acquire [0] \<lparr>rate = 1 / 10 ^ 11, capacity = 1, tokens = 0, last_t = 0\<rparr>
     = Some (Inl timestamp_error)"
  by (simp add: refill_def wait_s_def clock_overflow_def to_ns_def Let_def)

text \<open>A single caller with a clock that has advanced by the time waited: \<^verbatim>\<open>acquire\<close> comes
  to an end at the second pass at the latest, when the bucket holds at least one
  token.\<close>

lemma acquire_returns:
  assumes "0 < rate s" and "1 \<le> capacity s" and "last_t s \<le> now1"
    and "now1 + wait_s (refill now1 s) \<le> now2"
  shows "\<exists>r. acquire (now1 # now2 # nows) s = Some r"
proof -
  let ?s1 = "refill now1 s"
  have f: "rate ?s1 = rate s" "capacity ?s1 = capacity s" by simp_all
  have l: "last_t ?s1 = now1" using assms(3) by (simp add: refill_def Let_def)
  show ?thesis
  proof (cases "1 \<le> tokens ?s1 \<or> clock_overflow (wait_s ?s1)")
    case True
    then show ?thesis by (auto simp: Let_def)
  next
    case False
    then have t: "tokens ?s1 < 1" by simp
    have w: "(1 - tokens ?s1) / rate s \<le> wait_s ?s1" "0 < wait_s ?s1"
      by (simp_all add: wait_s_def)
    with assms(4) have e: "(1 - tokens ?s1) / rate s \<le> now2 - now1" "0 < now2 - now1"
      by simp_all
    from e(1) assms(1) have "1 - tokens ?s1 \<le> (now2 - now1) * rate s"
      by (simp add: pos_divide_le_eq)
    then have "1 \<le> tokens ?s1 + (now2 - now1) * rate s" by simp
    with assms(2) have "1 \<le> min (capacity s) (tokens ?s1 + (now2 - now1) * rate s)" by simp
    then have "1 \<le> tokens (refill now2 ?s1)"
      using e(2) l f by (simp add: refill_def Let_def)
    with False show ?thesis by (simp add: Let_def)
  qed
qed


section \<open>Construction\<close>

lemma DownloadManager_init_limiter:
  "DownloadManager_init mkdir now out r concurrency retr tmo ua nc vb = Inr m \<Longrightarrow>
   limiter m = \<lparr>rate = r, capacity = max r 1, tokens = max r 1, last_t = now\<rparr> \<and> 0 < r"
  by (auto simp: DownloadManager_init_def RateLimiter_init_def Let_def
           split: option.splits if_splits)

lemma DownloadManager_init_bad_rate:
  "r \<le> 0 \<Longrightarrow> isl (DownloadManager_init mkdir now out r concurrency retr tmo ua nc vb)"
  by (simp add: DownloadManager_init_def RateLimiter_init_def split: option.splits)

text \<open>
  Claim C6. The constructor of the rate limiter raises exactly when \<open>rate \<le> 0\<close>. When it
  returns, the bucket is full and the capacity is the one given, or the rate when none
  is given. A download manager that has been constructed holds a limiter of capacity
  \<open>max(rate, 1.0)\<close>. With \<open>rate \<le> 0\<close> the manager's constructor raises, and \<^verbatim>\<open>main\<close> ends
  with that exception without a single request or sleep.
\<close>

theorem RateLimiter_construction:
  "(isl (RateLimiter_init r cap now) \<longleftrightarrow> r \<le> 0)
   \<and> (0 < r \<longrightarrow> RateLimiter_init r None now
                  = Inr \<lparr>rate = r, capacity = r, tokens = r, last_t = now\<rparr>)
   \<and> (0 < r \<longrightarrow> RateLimiter_init r (Some c) now
                  = Inr \<lparr>rate = r, capacity = c, tokens = c, last_t = now\<rparr>)
   \<and> (\<forall>m. DownloadManager_init mkdir now out r concurrency retr tmo ua nc vb = Inr m \<longrightarrow>
            limiter m = \<lparr>rate = r, capacity = max r 1, tokens = max r 1, last_t = now\<rparr>)
   \<and> (r \<le> 0 \<longrightarrow>
        isl (DownloadManager_init mkdir now out r concurrency retr tmo ua nc vb)
        \<and> fst (main mkdir now ws finish out r concurrency retr tmo ua nc vb urls) = []
        \<and> isl (snd (main mkdir now ws finish out r concurrency retr tmo ua nc vb urls)))"
proof -
  have "isl (RateLimiter_init r cap now) \<longleftrightarrow> r \<le> 0"
    by (simp add: RateLimiter_init_def Let_def)
  moreover have "0 < r \<longrightarrow> RateLimiter_init r None now
                  = Inr \<lparr>rate = r, capacity = r, tokens = r, last_t = now\<rparr>"
    by (simp add: RateLimiter_init_def Let_def)
  moreover have "0 < r \<longrightarrow> RateLimiter_init r (Some c) now
                  = Inr \<lparr>rate = r, capacity = c, tokens = c, last_t = now\<rparr>"
    by (simp add: RateLimiter_init_def Let_def)
  moreover have "\<forall>m. DownloadManager_init mkdir now out r concurrency retr tmo ua nc vb = Inr m \<longrightarrow>
            limiter m = \<lparr>rate = r, capacity = max r 1, tokens = max r 1, last_t = now\<rparr>"
    using DownloadManager_init_limiter by blast
  moreover have "r \<le> 0 \<longrightarrow>
        isl (DownloadManager_init mkdir now out r concurrency retr tmo ua nc vb)
        \<and> fst (main mkdir now ws finish out r concurrency retr tmo ua nc vb urls) = []
        \<and> isl (snd (main mkdir now ws finish out r concurrency retr tmo ua nc vb urls))"
  proof
    assume "r \<le> 0"
    then have "isl (DownloadManager_init mkdir now out r concurrency retr tmo ua nc vb)"
      by (rule DownloadManager_init_bad_rate)
    then show "isl (DownloadManager_init mkdir now out r concurrency retr tmo ua nc vb)
        \<and> fst (main mkdir now ws finish out r concurrency retr tmo ua nc vb urls) = []
        \<and> isl (snd (main mkdir now ws finish out r concurrency retr tmo ua nc vb urls))"
      by (auto simp: main_def isl_def)
  qed
  ultimately show ?thesis by blast
qed

theorem RateLimiter_construction_witness:
  "isl (RateLimiter_init 0 None 0)
   \<and> RateLimiter_init 5 None 0 = Inr \<lparr>rate = 5, capacity = 5, tokens = 5, last_t = 0\<rparr>
   \<and> RateLimiter_init (1 / 2) (Some 1) 0
       = Inr \<lparr>rate = 1 / 2, capacity = 1, tokens = 1, last_t = 0\<rparr>
   \<and> limiter (projr (DownloadManager_init None 0 [''downloads''] (1 / 2) 4 3 20 None False False))
       = \<lparr>rate = 1 / 2, capacity = 1, tokens = 1, last_t = 0\<rparr>
   \<and> main None 0 (\<lambda>i. \<lparr>server = (\<lambda>a. Raises (URLError ''down'')), rand = (\<lambda>a. 0)\<rparr>) (\<lambda>i. 0)
        [''downloads''] 0 4 3 20 None False False [''http://h/x'']
       = ([], Inl (OtherError ''ValueError'' ''rate must be > 0 (tokens per second)''))"
proof -
  have m: "DownloadManager_init None 0 [''downloads''] (1 / 2) 4 3 20 None False False
           = Inr (projr (DownloadManager_init None 0 [''downloads''] (1 / 2) 4 3 20 None False False))"
    by (simp add: DownloadManager_init_def RateLimiter_init_def Let_def)
  have e: "main None 0 (\<lambda>i. \<lparr>server = (\<lambda>a. Raises (URLError ''down'')), rand = (\<lambda>a. 0)\<rparr>) (\<lambda>i. 0)
        [''downloads''] 0 4 3 20 None False False [''http://h/x'']
       = ([], Inl (OtherError ''ValueError'' ''rate must be > 0 (tokens per second)''))"
    by (simp add: main_def DownloadManager_init_def RateLimiter_init_def)
  show ?thesis
    using RateLimiter_construction [of 0 None 0]
          RateLimiter_construction [of 5 None 0]
          RateLimiter_construction [of "1 / 2" None 0 1 None "[''downloads'']" 4 3 20 None False False]
          m e
    by simp
qed

section \<open>Properties of guess\_filename\<close>

lemma underscore_legal: "CHR ''_'' \<notin> set illegal_chars"
  by (simp add: illegal_chars_def backslash_def quote_char_def)

lemma download_legal: "set ''download'' \<inter> set illegal_chars = {}"
  by (simp add: illegal_chars_def backslash_def quote_char_def)

lemma sanitize_filename_safe:
  "sanitize_filename s \<noteq> [] \<and> set (sanitize_filename s) \<inter> set illegal_chars = {}"
proof -
  let ?n1 = "replace_char carriage_return CHR '' '' (replace_char newline CHR '' '' (strip s))"
  let ?n2 = "map (\<lambda>c. if c \<in> set illegal_chars then CHR ''_'' else c) ?n1"
  have "set ?n2 \<inter> set illegal_chars = {}" using underscore_legal by auto
  then show ?thesis using download_legal by (simp add: sanitize_filename_def Let_def)
qed

lemma guess_filename_cases:
  "guess_filename u hs d = Inr name \<Longrightarrow> name = d \<or> (\<exists>s. name = sanitize_filename s)"
  by (auto simp: guess_filename_def Let_def split: option.splits if_splits sum.splits)

lemma star_group_nonempty: "star_group r = Some g \<Longrightarrow> g \<noteq> []"
proof (induction r arbitrary: g)
  case Nil
  then show ?case by simp
next
  case (Cons c cs)
  show ?case
  proof (cases "c \<noteq> newline \<and> star_group cs \<noteq> None")
    case True
    then obtain g' where g': "star_group cs = Some g'" by auto
    with True Cons.prems have "g = g'" by (simp add: Let_def)
    with Cons.IH g' show ?thesis by simp
  next
    case False
    then have later: "(if c = newline then None else star_group cs) = None" by auto
    from Cons.prems show ?thesis
      unfolding star_group.simps Let_def later
      by (auto split: list.splits if_splits)
  qed
qed

lemma plain_group_nonempty: "plain_group r = Some g \<Longrightarrow> g \<noteq> []"
  by (auto simp: plain_group_def Let_def split: if_splits)

lemma filename_re_match_groups:
  "filename_re_match s = Some (g1, g2) \<Longrightarrow> \<exists>g. g \<noteq> [] \<and> py_or g1 g2 = Some g"
  by (auto simp: filename_re_match_def py_or_def split: option.splits list.splits
           dest: star_group_nonempty plain_group_nonempty)

lemma filename_re_match_Nil: "filename_re_match [] = None"
  by (simp add: filename_re_match_def)

lemma filename_re_search_groups:
  "filename_re_search s = Some (g1, g2) \<Longrightarrow> \<exists>g. g \<noteq> [] \<and> py_or g1 g2 = Some g"
proof (induction s)
  case Nil
  then show ?case by (simp add: filename_re_match_Nil)
next
  case (Cons c cs)
  then show ?case using filename_re_match_groups [of "c # cs" g1 g2]
    by (auto split: option.splits)
qed

text \<open>The tests \<^verbatim>\<open>if headers:\<close>, \<^verbatim>\<open>if cd:\<close> and \<^verbatim>\<open>if candidate:\<close> reject nothing that the
  pattern would accept: the candidate is the filename the pattern extracts.\<close>

lemma header_candidate_eq: "header_candidate hs = header_filename hs"
proof (cases hs)
  case None
  then show ?thesis by (simp add: header_candidate_def header_filename_def)
next
  case (Some h)
  let ?cd = "py_or (map_of h ''Content-Disposition'') (map_of h ''content-disposition'')"
  show ?thesis
  proof (cases ?cd)
    case None
    then show ?thesis using Some by (simp add: header_candidate_def header_filename_def)
  next
    case cd: (Some v)
    have hne: "h \<noteq> []" using cd by (auto simp: py_or_def)
    show ?thesis
    proof (cases v)
      case Nil
      then show ?thesis using Some cd hne
        by (simp add: header_candidate_def header_filename_def filename_re_match_Nil)
    next
      case (Cons c rest)
      show ?thesis
      proof (cases "filename_re_search (c # rest)")
        case None
        then show ?thesis using Some cd hne Cons
          by (simp add: header_candidate_def header_filename_def)
      next
        case m: (Some gs)
        obtain g1 g2 where gs: "gs = (g1, g2)" by (cases gs)
        from m gs filename_re_search_groups obtain g where "g \<noteq> []" "py_or g1 g2 = Some g"
          by blast
        then obtain x xs where "py_or g1 g2 = Some (x # xs)" by (cases g) auto
        then show ?thesis using Some cd hne Cons m gs
          by (simp add: header_candidate_def header_filename_def)
      qed
    qed
  qed
qed

lemma split_slash_plain: "CHR ''/'' \<notin> set s \<Longrightarrow> split_slash s = [s]"
  by (induction s) auto

lemma joinpath_plain:
  "CHR ''/'' \<notin> set s \<Longrightarrow> s \<noteq> [] \<Longrightarrow> s \<noteq> ''.'' \<Longrightarrow> joinpath p s = p @ [s]"
  by (cases s) (auto simp: joinpath_def parse_parts_def split_slash_plain)

lemma resolve_snoc: "s \<noteq> ''..'' \<Longrightarrow> resolve (p @ [s]) = resolve p @ [s]"
  by (simp add: resolve_def resolve_step_def)

lemma direct_child_snoc:
  "s \<noteq> ''..'' \<Longrightarrow> CHR ''/'' \<notin> set s \<Longrightarrow> direct_child p (p @ [s])"
  by (auto simp: direct_child_def resolve_snoc Let_def)

lemma slash_illegal: "CHR ''/'' \<in> set illegal_chars"
  by (simp add: illegal_chars_def)

text \<open>
  Claim C7. A filename that the pattern extracts from the Content-Disposition header is
  used first (unquoted and sanitized), whatever the URL; without one, the last segment of
  the URL's path is used (unquoted and sanitized); when that segment is empty, the
  fallback is returned. The three examples of the specification evaluate as it says.
\<close>

theorem guess_filename_precedence:
  "(\<forall>c. header_filename hs = Some c \<longrightarrow>
         guess_filename u hs d = Inr (sanitize_filename (unquote c)))
   \<and> (\<forall>p. header_filename hs = None \<and> urlparse_path u = Inr p \<and> basename p \<noteq> [] \<longrightarrow>
         guess_filename u hs d = Inr (sanitize_filename (unquote (basename p))))
   \<and> (\<forall>p. header_filename hs = None \<and> urlparse_path u = Inr p \<and> basename p = [] \<longrightarrow>
         guess_filename u hs d = Inr d)
   \<and> guess_filename ''https://example.com/download''
        (Some [(''Content-Disposition'',
                ''attachment; filename='' @ [quote_char] @ ''report.pdf'' @ [quote_char])])
        ''download'' = Inr ''report.pdf''
   \<and> guess_filename ''https://example.com/files/image.png'' (Some []) ''download''
        = Inr ''image.png''
   \<and> guess_filename ''https://example.com'' None ''download'' = Inr ''download''"
proof -
  have "\<forall>c. header_filename hs = Some c \<longrightarrow>
         guess_filename u hs d = Inr (sanitize_filename (unquote c))"
    by (simp add: guess_filename_def header_candidate_eq)
  moreover have "\<forall>p. header_filename hs = None \<and> urlparse_path u = Inr p \<and> basename p \<noteq> [] \<longrightarrow>
         guess_filename u hs d = Inr (sanitize_filename (unquote (basename p)))"
    by (simp add: guess_filename_def header_candidate_eq Let_def)
  moreover have "\<forall>p. header_filename hs = None \<and> urlparse_path u = Inr p \<and> basename p = [] \<longrightarrow>
         guess_filename u hs d = Inr d"
    by (simp add: guess_filename_def header_candidate_eq Let_def)
  moreover have "guess_filename ''https://example.com/download''
        (Some [(''Content-Disposition'',
                ''attachment; filename='' @ [quote_char] @ ''report.pdf'' @ [quote_char])])
        ''download'' = Inr ''report.pdf''"
    by code_simp
  moreover have "guess_filename ''https://example.com/files/image.png'' (Some []) ''download''
        = Inr ''image.png''"
    by code_simp
  moreover have "guess_filename ''https://example.com'' None ''download'' = Inr ''download''"
    by code_simp
  ultimately show ?thesis by blast
qed

theorem guess_filename_precedence_witness:
  "header_filename (Some [(''content-disposition'', ''inline; FileName=a%20b.txt; size=3'')])
     = Some ''a%20b.txt''
   \<and> guess_filename ''http://h/files/image.png''
        (Some [(''content-disposition'', ''inline; FileName=a%20b.txt; size=3'')]) ''download''
     = Inr ''a b.txt''
   \<and> header_filename (Some [(''Content-Type'', ''text/plain'')]) = None
   \<and> urlparse_path ''http://h/files/image.png?x=1'' = Inr ''/files/image.png''
   \<and> guess_filename ''http://h/files/image.png?x=1'' (Some [(''Content-Type'', ''text/plain'')])
        ''download'' = Inr ''image.png''
   \<and> urlparse_path ''http://h/files/'' = Inr ''/files/''
   \<and> guess_filename ''http://h/files/'' (Some [(''Content-Type'', ''text/plain'')]) ''download''
     = Inr ''download''"
proof -
  have a: "header_filename (Some [(''content-disposition'', ''inline; FileName=a%20b.txt; size=3'')])
     = Some ''a%20b.txt''" by code_simp
  have b: "sanitize_filename (unquote ''a%20b.txt'') = ''a b.txt''" by code_simp
  have c: "header_filename (Some [(''Content-Type'', ''text/plain'')]) = None" by code_simp
  have d: "urlparse_path ''http://h/files/image.png?x=1'' = Inr ''/files/image.png''"
    by code_simp
  have e: "basename ''/files/image.png'' = ''image.png''" by code_simp
  have f: "sanitize_filename (unquote ''image.png'') = ''image.png''" by code_simp
  have g: "urlparse_path ''http://h/files/'' = Inr ''/files/''" by code_simp
  have h: "basename ''/files/'' = []" by code_simp
  show ?thesis
    using guess_filename_precedence
            [of "Some [(''content-disposition'', ''inline; FileName=a%20b.txt; size=3'')]"
                "''http://h/files/image.png''" "''download''"]
          guess_filename_precedence
            [of "Some [(''Content-Type'', ''text/plain'')]" "''http://h/files/image.png?x=1''"
                "''download''"]
          guess_filename_precedence
            [of "Some [(''Content-Type'', ''text/plain'')]" "''http://h/files/''" "''download''"]
          a b c d e f g h
    by simp
qed

text \<open>
  Claim C10, as stated: the name is never a path out of the output directory. The
  sanitizer replaces characters only, so the names \<^verbatim>\<open>..\<close> and \<^verbatim>\<open>.\<close> pass unchanged: the
  first joins to the parent of the output directory. And the function does not return
  for every URL: without a header filename, a URL whose netloc has an unbalanced bracket
  makes \<^verbatim>\<open>urlparse\<close> raise.
\<close>

theorem guess_filename_child_counterexample:
  "guess_filename ''http://h/x'' (Some [(''Content-Disposition'', ''attachment; filename=..'')])
     ''download'' = Inr ''..''
   \<and> joinpath [''downloads''] ''..'' = [''downloads'', ''..'']
   \<and> \<not> direct_child [''downloads''] [''downloads'', ''..'']
   \<and> guess_filename ''http://[/x'' None ''download''
       = Inl (OtherError ''ValueError'' ''Invalid IPv6 URL'')"
  by code_simp

text \<open>
  Claim C10, amended. Whenever \<^verbatim>\<open>guess_filename\<close> with its default fallback returns a
  name, for any URL and any headers, also with percent-encoded separators in the header,
  the name is not empty and contains none of the nine characters. Unless the name is
  \<^verbatim>\<open>.\<close> or \<^verbatim>\<open>..\<close>, joining it to the output directory adds exactly that one part, and the
  result is a direct child of the output directory.
\<close>

theorem guess_filename_safe:
  assumes "guess_filename u hs ''download'' = Inr name"
  shows "name \<noteq> [] \<and> set name \<inter> set illegal_chars = {}
    \<and> (name \<noteq> ''.'' \<and> name \<noteq> ''..'' \<longrightarrow>
         joinpath dir name = dir @ [name] \<and> direct_child dir (joinpath dir name))"
proof -
  from assms have "name = ''download'' \<or> (\<exists>s. name = sanitize_filename s)"
    by (rule guess_filename_cases)
  then have safe: "name \<noteq> [] \<and> set name \<inter> set illegal_chars = {}"
    using sanitize_filename_safe download_legal by auto
  then have noslash: "CHR ''/'' \<notin> set name" using slash_illegal by auto
  have "name \<noteq> ''.'' \<and> name \<noteq> ''..'' \<longrightarrow>
         joinpath dir name = dir @ [name] \<and> direct_child dir (joinpath dir name)"
    using safe noslash by (simp add: joinpath_plain direct_child_snoc)
  with safe show ?thesis by blast
qed

theorem guess_filename_safe_witness:
  "guess_filename ''http://h/x''
     (Some [(''Content-Disposition'', ''attachment; filename=..%2F..%2Fetc%2Fpasswd'')])
     ''download'' = Inr ''.._.._etc_passwd''
   \<and> ''.._.._etc_passwd'' \<noteq> [] \<and> set ''.._.._etc_passwd'' \<inter> set illegal_chars = {}
   \<and> joinpath [''downloads''] ''.._.._etc_passwd'' = [''downloads''] @ [''.._.._etc_passwd'']
   \<and> direct_child [''downloads''] (joinpath [''downloads''] ''.._.._etc_passwd'')"
proof -
  have g: "guess_filename ''http://h/x''
     (Some [(''Content-Disposition'', ''attachment; filename=..%2F..%2Fetc%2Fpasswd'')])
     ''download'' = Inr ''.._.._etc_passwd''" by code_simp
  have n: "''.._.._etc_passwd'' \<noteq> ''.'' \<and> ''.._.._etc_passwd'' \<noteq> ''..''" by simp
  from guess_filename_safe [OF g, of "[''downloads'']"] n g show ?thesis by blast
qed

section \<open>Properties of dedupe\_path\<close>

lemma dedupe_loop_first:
  "\<exists>k\<ge>i. dedupe_loop files parent stem suffix i = candidate parent stem suffix k
        \<and> candidate parent stem suffix k \<notin> set files
        \<and> (\<forall>j. i \<le> j \<and> j < k \<longrightarrow> candidate parent stem suffix j \<in> set files)"
proof (induction files parent stem suffix i rule: dedupe_loop.induct)
  case (1 files parent stem suffix i)
  show ?case
  proof (cases "candidate parent stem suffix i \<in> set files")
    case False
    then have "dedupe_loop files parent stem suffix i = candidate parent stem suffix i"
      by (subst dedupe_loop.simps) (simp add: Let_def)
    with False show ?thesis by auto
  next
    case True
    then have step: "dedupe_loop files parent stem suffix i
                     = dedupe_loop files parent stem suffix (i + 1)"
      by (subst dedupe_loop.simps) (simp add: Let_def)
    from "1.IH" [OF refl] True
    obtain k where k: "k \<ge> i + 1"
      "dedupe_loop files parent stem suffix (i + 1) = candidate parent stem suffix k"
      "candidate parent stem suffix k \<notin> set files"
      "\<forall>j. i + 1 \<le> j \<and> j < k \<longrightarrow> candidate parent stem suffix j \<in> set files"
      by auto
    have "\<forall>j. i \<le> j \<and> j < k \<longrightarrow> candidate parent stem suffix j \<in> set files"
    proof (intro allI impI)
      fix j assume j: "i \<le> j \<and> j < k"
      show "candidate parent stem suffix j \<in> set files"
      proof (cases "j = i")
        case True
        with \<open>candidate parent stem suffix i \<in> set files\<close> show ?thesis by simp
      next
        case False
        with j have "i + 1 \<le> j \<and> j < k" by simp
        with k(4) show ?thesis by blast
      qed
    qed
    moreover have "k \<ge> i" using k(1) by simp
    ultimately show ?thesis using step k(2,3) by auto
  qed
qed

text \<open>
  Claim C8. \<^verbatim>\<open>dedupe_path\<close> returns its argument when no file exists at it. Otherwise it
  returns \<^verbatim>\<open>parent / stem(i)suffix\<close> for the least \<open>i \<ge> 1\<close> at which no file exists, for
  every finite listing of existing files (the loop always ends). On an existing
  \<^verbatim>\<open>file.txt\<close> that is \<^verbatim>\<open>file(1).txt\<close>, and \<^verbatim>\<open>file(2).txt\<close> when that exists too.
\<close>

theorem dedupe_path_first_free:
  "(p \<notin> set files \<longrightarrow> dedupe_path files p = p)
   \<and> (p \<in> set files \<longrightarrow>
        (\<exists>i\<ge>1. dedupe_path files p
                  = path_parent p @ [path_stem p @ ''('' @ str_nat i @ '')'' @ path_suffix p]
               \<and> dedupe_path files p \<notin> set files
               \<and> (\<forall>j. 1 \<le> j \<and> j < i \<longrightarrow>
                    path_parent p @ [path_stem p @ ''('' @ str_nat j @ '')'' @ path_suffix p]
                      \<in> set files)))
   \<and> dedupe_path [[''tmp'', ''file.txt'']] [''tmp'', ''file.txt''] = [''tmp'', ''file(1).txt'']
   \<and> dedupe_path [[''tmp'', ''file.txt''], [''tmp'', ''file(1).txt'']] [''tmp'', ''file.txt'']
        = [''tmp'', ''file(2).txt'']"
proof -
  have "p \<notin> set files \<longrightarrow> dedupe_path files p = p"
    by (simp add: dedupe_path_def)
  moreover have "p \<in> set files \<longrightarrow>
        (\<exists>i\<ge>1. dedupe_path files p
                  = path_parent p @ [path_stem p @ ''('' @ str_nat i @ '')'' @ path_suffix p]
               \<and> dedupe_path files p \<notin> set files
               \<and> (\<forall>j. 1 \<le> j \<and> j < i \<longrightarrow>
                    path_parent p @ [path_stem p @ ''('' @ str_nat j @ '')'' @ path_suffix p]
                      \<in> set files))"
  proof
    assume "p \<in> set files"
    then have d: "dedupe_path files p
                  = dedupe_loop files (path_parent p) (path_stem p) (path_suffix p) 1"
      by (simp add: dedupe_path_def)
    from dedupe_loop_first [of 1 files "path_parent p" "path_stem p" "path_suffix p"]
    show "\<exists>i\<ge>1. dedupe_path files p
                  = path_parent p @ [path_stem p @ ''('' @ str_nat i @ '')'' @ path_suffix p]
               \<and> dedupe_path files p \<notin> set files
               \<and> (\<forall>j. 1 \<le> j \<and> j < i \<longrightarrow>
                    path_parent p @ [path_stem p @ ''('' @ str_nat j @ '')'' @ path_suffix p]
                      \<in> set files)"
      unfolding d candidate_def by metis
  qed
  moreover have "dedupe_path [[''tmp'', ''file.txt'']] [''tmp'', ''file.txt'']
                 = [''tmp'', ''file(1).txt'']"
    by code_simp
  moreover have "dedupe_path [[''tmp'', ''file.txt''], [''tmp'', ''file(1).txt'']]
                   [''tmp'', ''file.txt''] = [''tmp'', ''file(2).txt'']"
    by code_simp
  ultimately show ?thesis by blast
qed

theorem dedupe_path_first_free_witness:
  "[''tmp'', ''photo.jpg''] \<notin> set [[''tmp'', ''file.txt'']]
   \<and> dedupe_path [[''tmp'', ''file.txt'']] [''tmp'', ''photo.jpg''] = [''tmp'', ''photo.jpg'']
   \<and> [''tmp'', ''file.txt''] \<in> set [[''tmp'', ''file.txt'']]
   \<and> dedupe_path [[''tmp'', ''file.txt'']] [''tmp'', ''file.txt''] \<notin> set [[''tmp'', ''file.txt'']]"
proof -
  have a: "[''tmp'', ''photo.jpg''] \<notin> set [[''tmp'', ''file.txt'']]" by simp
  have b: "[''tmp'', ''file.txt''] \<in> set [[''tmp'', ''file.txt'']]" by simp
  from dedupe_path_first_free [of "[''tmp'', ''photo.jpg'']" "[[''tmp'', ''file.txt'']]"]
       dedupe_path_first_free [of "[''tmp'', ''file.txt'']" "[[''tmp'', ''file.txt'']]"]
       a b
  show ?thesis by blast
qed

section \<open>Backoff and the retry loop\<close>

lemma two_pow_pos: "0 < two_pow n"
  by (simp add: two_pow_def)

lemma two_pow_nat: "1 \<le> a \<Longrightarrow> two_pow (a - 1) = 2 ^ nat (a - 1)"
  by (simp add: two_pow_def)

lemma backoff_delay_None:
  "a \<le> 1024 \<Longrightarrow> backoff_delay a None x
     = Inr (Finite (min ((1 / 2) * two_pow (a - 1)
                          + uniform 0 ((1 / 4) * ((1 / 2) * two_pow (a - 1))) x) 10))"
  by (simp add: backoff_delay_def Let_def)

lemma backoff_delay_overflow:
  "1025 \<le> a \<Longrightarrow> backoff_delay a None x
     = Inl (OtherError ''OverflowError'' ''int too large to convert to float'')"
  by (simp add: backoff_delay_def)

lemma backoff_delay_Some: "backoff_delay a (Some v) x = Inr v"
  by (simp add: backoff_delay_def)

lemma jitter_bounds:
  assumes "0 \<le> b" "0 \<le> x" "x \<le> 1"
  shows "0 \<le> uniform 0 b x \<and> uniform 0 b x \<le> b"
proof -
  have u: "uniform 0 b x = x * b" by (simp add: uniform_def)
  have "x * b \<le> 1 * b" using assms by (intro mult_right_mono) simp_all
  moreover have "0 \<le> x * b" using assms by simp
  ultimately show ?thesis unfolding u by simp
qed

lemma backoff_value_range:
  assumes "0 \<le> x"
  shows "0 \<le> min ((1 / 2) * two_pow n + uniform 0 ((1 / 4) * ((1 / 2) * two_pow n)) x) 10"
proof -
  have p: "0 < two_pow n" by (rule two_pow_pos)
  have "uniform 0 ((1 / 4) * ((1 / 2) * two_pow n)) x = x * ((1 / 4) * ((1 / 2) * two_pow n))"
    by (simp add: uniform_def)
  moreover have "0 \<le> x * ((1 / 4) * ((1 / 2) * two_pow n))" using p assms by simp
  moreover have "0 \<le> (1 / 2) * two_pow n" using p by simp
  ultimately show ?thesis by simp
qed

lemma within_clock: "0 \<le> d \<Longrightarrow> d \<le> 10 \<Longrightarrow> \<not> clock_overflow d"
proof -
  assume d: "0 \<le> d" "d \<le> 10"
  then have "d * 10 ^ 9 \<le> 10 * 10 ^ 9" by simp
  then have "\<lceil>d * 10 ^ 9\<rceil> \<le> \<lceil>10 * 10 ^ 9 :: real\<rceil>" by (rule ceiling_mono)
  then have hi: "\<lceil>d * 10 ^ 9\<rceil> \<le> 10000000000" by simp
  have "0 \<le> d * 10 ^ 9" using d by simp
  then have lo: "0 \<le> \<lceil>d * 10 ^ 9\<rceil>" by (simp add: ceiling_le_iff order_trans [OF _ le_of_int_ceiling])
  from hi lo d show ?thesis by (simp add: clock_overflow_def to_ns_def)
qed

lemma time_sleep_Finite:
  "time_sleep (Finite secs) =
     (if clock_overflow secs then Inl timestamp_error
      else if secs < 0 then Inl (OtherError ''ValueError'' ''sleep length must be non-negative'')
      else Inr secs)"
  by (simp add: time_sleep_def)

lemma sleep_backoff_None:
  assumes "a \<le> 1024" "0 \<le> x"
  shows "sleep_backoff a None x
     = Inr (min ((1 / 2) * two_pow (a - 1)
                  + uniform 0 ((1 / 4) * ((1 / 2) * two_pow (a - 1))) x) 10)"
proof -
  let ?d = "min ((1 / 2) * two_pow (a - 1)
                  + uniform 0 ((1 / 4) * ((1 / 2) * two_pow (a - 1))) x) 10"
  have lo: "0 \<le> ?d" using assms(2) by (rule backoff_value_range)
  have hi: "?d \<le> 10" by simp
  have "time_sleep (Finite ?d) = Inr ?d"
    using within_clock [OF lo hi] lo by (simp only: time_sleep_Finite) simp
  then show ?thesis
    by (simp only: sleep_backoff_def backoff_delay_None [OF assms(1)] sum.case)
qed

lemma sleep_backoff_Finite:
  "sleep_backoff a (Some (Finite secs)) x =
     (if clock_overflow secs then Inl timestamp_error
      else if secs < 0 then Inl (OtherError ''ValueError'' ''sleep length must be non-negative'')
      else Inr secs)"
  by (simp add: sleep_backoff_def backoff_delay_Some time_sleep_Finite)

lemma sleep_backoff_nonneg: "sleep_backoff a ra x = Inr d \<Longrightarrow> 0 \<le> d"
  by (cases ra)
     (auto simp: sleep_backoff_def backoff_delay_def time_sleep_def Let_def backoff_value_range
           split: if_splits pyfloat.splits dest: sym)


lemma can_sleep_ok: "can_sleep a ra x \<Longrightarrow> \<exists>d. sleep_backoff a ra x = Inr d"
proof (cases ra)
  case None
  assume "can_sleep a ra x"
  with None have "a \<le> 1024" "0 \<le> x" by (simp_all add: can_sleep_def)
  from sleep_backoff_None [OF this] None show ?thesis by simp
next
  case (Some v)
  assume c: "can_sleep a ra x"
  with Some obtain secs where v: "v = Finite secs" and s: "sleepable secs"
    by (cases v) (simp_all add: can_sleep_def)
  then have "sleep_backoff a (Some v) x = Inr secs"
    by (simp add: sleep_backoff_Finite sleepable_def)
  with Some show ?thesis by simp
qed

lemma backoff_then_Retry:
  "backoff_then a ra x le ls = Retry d le' ls' \<Longrightarrow>
   sleep_backoff a ra x = Inr d \<and> le' = le \<and> ls' = ls"
  by (auto simp: backoff_then_def split: sum.splits)

lemma backoff_then_not_Stop: "backoff_then a ra x le ls \<noteq> Stop e s"
  by (auto simp: backoff_then_def split: sum.splits)

lemma backoff_then_ok:
  "sleep_backoff a ra x = Inr d \<Longrightarrow> backoff_then a ra x le ls = Retry d le ls"
  by (simp add: backoff_then_def)

lemma backoff_then_raises:
  "sleep_backoff a ra x = Inl e \<Longrightarrow> backoff_then a ra x le ls = Crash e"
  by (simp add: backoff_then_def)

lemma handle_eq:
  "handle retr x a le ls e =
     (if exn_retriable e \<and> a \<le> retr
      then backoff_then a (exn_retry_after e) x (exn_err e le) (exn_status e ls)
      else Stop (Some (error_text e)) (exn_status e ls))"
  by (cases e) (simp_all add: handle_def Let_def)

lemma handle_Stop:
  "handle retr x a le ls e = Stop err st \<Longrightarrow>
   err = Some (error_text e) \<and> st = exn_status e ls \<and> \<not> (exn_retriable e \<and> a \<le> retr)"
  by (auto simp: handle_eq backoff_then_not_Stop split: if_splits)

lemma handle_Retry:
  "handle retr x a le ls e = Retry d err st \<Longrightarrow>
   exn_retriable e \<and> a \<le> retr \<and> sleep_backoff a (exn_retry_after e) x = Inr d
   \<and> err = exn_err e le \<and> st = exn_status e ls \<and> 0 \<le> d"
  by (auto simp: handle_eq split: if_splits dest: backoff_then_Retry sleep_backoff_nonneg)

lemma handle_stop_eq:
  "\<not> (exn_retriable e \<and> a \<le> retr) \<Longrightarrow>
   handle retr x a le ls e = Stop (Some (error_text e)) (exn_status e ls)"
  by (subst handle_eq) (simp only: if_False)

lemma handle_retry_eq:
  "exn_retriable e \<Longrightarrow> a \<le> retr \<Longrightarrow>
   handle retr x a le ls e
     = backoff_then a (exn_retry_after e) x (exn_err e le) (exn_status e ls)"
  by (subst handle_eq) simp

lemma attempt_body_Inr:
  "attempt_body m u a oc = Inr (seen, Inr res) \<Longrightarrow>
   ok res \<and> attempts res = a \<and> url res = u \<and> error res = None \<and> status res = seen"
  by (auto simp: attempt_body_def Let_def split: outcome.splits sum.splits option.splits)

lemma attempt_body_Raises: "attempt_body m u a (Raises e) = Inr (None, Inl e)"
  by (simp add: attempt_body_def)


lemma failed_fields [simp]:
  "ok (failed u ls a le) = False" "attempts (failed u ls a le) = a"
  "url (failed u ls a le) = u" "status (failed u ls a le) = ls" "error (failed u ls a le) = le"
  by (simp_all add: failed_def)

lemma requests_simps [simp]:
  "requests [] = 0" "requests (Get a # tr) = 1 + requests tr"
  "requests (Sleep d # tr) = requests tr"
  by (simp_all add: requests_def)

lemma cli_manager_constructed:
  "DownloadManager_init None 0 [''downloads''] 5 4 retr 20 None False False
     = Inr (cli_manager retr)"
  by (simp add: DownloadManager_init_def RateLimiter_init_def cli_manager_def Let_def)

lemma retries_cli_manager [simp]: "retries (cli_manager retr) = retr"
  by (simp add: cli_manager_def)

lemma loop_done:
  "\<not> a0 \<le> retries m \<Longrightarrow> download_loop m w u a0 le ls = ([], Inr (failed u ls a0 le))"
  by (subst download_loop.simps) simp

lemma loop_blocked:
  "a0 \<le> retries m \<Longrightarrow> attempt_body m u (a0 + 1) (server w (a0 + 1)) = Inl x \<Longrightarrow>
   download_loop m w u a0 le ls = ([], Inl x)"
  by (subst download_loop.simps) (simp add: Let_def)

lemma loop_success:
  "a0 \<le> retries m \<Longrightarrow>
   attempt_body m u (a0 + 1) (server w (a0 + 1)) = Inr (seen, Inr res) \<Longrightarrow>
   download_loop m w u a0 le ls = ([Get (a0 + 1)], Inr res)"
  by (subst download_loop.simps) (simp add: Let_def)

lemma loop_handle:
  "a0 \<le> retries m \<Longrightarrow>
   attempt_body m u (a0 + 1) (server w (a0 + 1)) = Inr (seen, Inl e) \<Longrightarrow>
   download_loop m w u a0 le ls =
     (case handle (retries m) (rand w (a0 + 1)) (a0 + 1) le
             (case seen of Some st \<Rightarrow> Some st | None \<Rightarrow> ls) e of
        Retry d err st \<Rightarrow>
          (Get (a0 + 1) # Sleep d # fst (download_loop m w u (a0 + 1) err st),
           snd (download_loop m w u (a0 + 1) err st))
      | Stop err st \<Rightarrow> ([Get (a0 + 1)], Inr (failed u st (a0 + 1) err))
      | Crash x \<Rightarrow> ([Get (a0 + 1)], Inl x))"
  by (subst download_loop.simps) (simp add: Let_def split: flow.splits prod.splits)

lemma loop_stop:
  assumes "a0 \<le> retries m"
    and "attempt_body m u (a0 + 1) (server w (a0 + 1)) = Inr (seen, Inl e)"
    and "\<not> (exn_retriable e \<and> a0 + 1 \<le> retries m)"
  shows "download_loop m w u a0 le ls =
           ([Get (a0 + 1)],
            Inr (failed u (exn_status e (case seen of Some st \<Rightarrow> Some st | None \<Rightarrow> ls))
                   (a0 + 1) (Some (error_text e))))"
proof -
  from assms(3) have "handle (retries m) (rand w (a0 + 1)) (a0 + 1) le
                        (case seen of Some st \<Rightarrow> Some st | None \<Rightarrow> ls) e
      = Stop (Some (error_text e))
          (exn_status e (case seen of Some st \<Rightarrow> Some st | None \<Rightarrow> ls))"
    by (rule handle_stop_eq)
  with assms(1,2) show ?thesis by (simp add: loop_handle)
qed

lemma loop_retry:
  assumes "a0 \<le> retries m"
    and "attempt_body m u (a0 + 1) (server w (a0 + 1)) = Inr (seen, Inl e)"
    and "exn_retriable e" and "a0 + 1 \<le> retries m"
    and "sleep_backoff (a0 + 1) (exn_retry_after e) (rand w (a0 + 1)) = Inr d"
  shows "download_loop m w u a0 le ls =
           (Get (a0 + 1) # Sleep d
              # fst (download_loop m w u (a0 + 1) (exn_err e le)
                      (exn_status e (case seen of Some st \<Rightarrow> Some st | None \<Rightarrow> ls))),
            snd (download_loop m w u (a0 + 1) (exn_err e le)
                      (exn_status e (case seen of Some st \<Rightarrow> Some st | None \<Rightarrow> ls))))"
  using assms by (simp add: loop_handle handle_retry_eq backoff_then_ok)

lemma loop_crash:
  assumes "a0 \<le> retries m"
    and "attempt_body m u (a0 + 1) (server w (a0 + 1)) = Inr (seen, Inl e)"
    and "exn_retriable e" and "a0 + 1 \<le> retries m"
    and "sleep_backoff (a0 + 1) (exn_retry_after e) (rand w (a0 + 1)) = Inl x"
  shows "download_loop m w u a0 le ls = ([Get (a0 + 1)], Inl x)"
  using assms by (simp add: loop_handle handle_retry_eq backoff_then_raises)

lemma loop_first:
  assumes "a0 \<le> retries m" and "attempt_body m u (a0 + 1) (server w (a0 + 1)) = Inr b"
  shows "\<exists>tr. fst (download_loop m w u a0 le ls) = Get (a0 + 1) # tr"
proof -
  obtain seen r where b: "b = (seen, r)" by (cases b)
  show ?thesis
  proof (cases r)
    case (Inr res)
    with assms b show ?thesis by (simp add: loop_success)
  next
    case (Inl e)
    with assms b show ?thesis by (simp add: loop_handle split: flow.splits)
  qed
qed

lemma loop_requests:
  "nat (retries m + 1 - a0) = n \<Longrightarrow>
   requests (fst (download_loop m w u a0 le ls)) \<le> max 0 (retries m + 1 - a0)"
proof (induction n arbitrary: a0 le ls)
  case 0
  then have "\<not> a0 \<le> retries m" by simp
  then show ?case by (simp add: loop_done)
next
  case (Suc n)
  then have a: "a0 \<le> retries m" by simp
  have n: "nat (retries m + 1 - (a0 + 1)) = n" using Suc.prems by simp
  show ?case
  proof (cases "attempt_body m u (a0 + 1) (server w (a0 + 1))")
    case (Inl x)
    with a show ?thesis by (simp add: loop_blocked)
  next
    case (Inr b)
    obtain seen r where b: "b = (seen, r)" by (cases b)
    show ?thesis
    proof (cases r)
      case res: (Inr res)
      with a Inr b show ?thesis by (simp add: loop_success)
    next
      case e: (Inl e)
      let ?ls = "case seen of Some st \<Rightarrow> Some st | None \<Rightarrow> ls"
      show ?thesis
      proof (cases "handle (retries m) (rand w (a0 + 1)) (a0 + 1) le ?ls e")
        case (Retry d err st)
        from Suc.IH [OF n, of err st]
        have "requests (fst (download_loop m w u (a0 + 1) err st)) \<le> max 0 (retries m - a0)"
          by simp
        with a Inr b e Retry show ?thesis by (simp add: loop_handle)
      next
        case (Stop err st)
        with a Inr b e show ?thesis by (simp add: loop_handle)
      next
        case (Crash x)
        with a Inr b e show ?thesis by (simp add: loop_handle)
      qed
    qed
  qed
qed

lemma loop_attempts:
  "nat (retries m + 1 - a0) = n \<Longrightarrow> snd (download_loop m w u a0 le ls) = Inr r \<Longrightarrow>
   attempts r = a0 + requests (fst (download_loop m w u a0 le ls)) \<and> url r = u"
proof (induction n arbitrary: a0 le ls)
  case 0
  then have "\<not> a0 \<le> retries m" by simp
  with "0.prems"(2) show ?case by (auto simp: loop_done)
next
  case (Suc n)
  then have a: "a0 \<le> retries m" by simp
  have n: "nat (retries m + 1 - (a0 + 1)) = n" using Suc.prems by simp
  show ?case
  proof (cases "attempt_body m u (a0 + 1) (server w (a0 + 1))")
    case (Inl x)
    with a Suc.prems(2) show ?thesis by (simp add: loop_blocked)
  next
    case (Inr b)
    obtain seen r0 where b: "b = (seen, r0)" by (cases b)
    show ?thesis
    proof (cases r0)
      case res: (Inr res)
      with a Inr b Suc.prems(2) have "res = r" by (simp add: loop_success)
      with a Inr b res attempt_body_Inr [of m u "a0 + 1" "server w (a0 + 1)" seen res]
      show ?thesis by (simp add: loop_success)
    next
      case e: (Inl e)
      let ?ls = "case seen of Some st \<Rightarrow> Some st | None \<Rightarrow> ls"
      show ?thesis
      proof (cases "handle (retries m) (rand w (a0 + 1)) (a0 + 1) le ?ls e")
        case (Retry d err st)
        with a Inr b e Suc.prems(2)
        have "snd (download_loop m w u (a0 + 1) err st) = Inr r" by (simp add: loop_handle)
        from Suc.IH [OF n this] a Inr b e Retry show ?thesis by (simp add: loop_handle)
      next
        case (Stop err st)
        with a Inr b e Suc.prems(2) show ?thesis by (auto simp: loop_handle)
      next
        case (Crash x)
        with a Inr b e Suc.prems(2) show ?thesis by (simp add: loop_handle)
      qed
    qed
  qed
qed

text \<open>Within the range where \<^verbatim>\<open>_sleep_backoff\<close> does not raise, it sleeps what the
  specification says: for an attempt count from 1 to 1024 without Retry-After, the base
  \<open>0.5 * 2^(a-1)\<close> plus a jitter between 0 and a quarter of it, capped at 10; with a
  Retry-After value that is finite, not negative and within the clock type, that value.\<close>

lemma sleep_backoff_in_range:
  "(1 \<le> a \<and> a \<le> 1024 \<and> 0 \<le> x \<and> x \<le> 1 \<longrightarrow>
      0 \<le> uniform 0 ((1 / 4) * ((1 / 2) * 2 ^ nat (a - 1))) x
      \<and> uniform 0 ((1 / 4) * ((1 / 2) * 2 ^ nat (a - 1))) x \<le> (1 / 4) * ((1 / 2) * 2 ^ nat (a - 1))
      \<and> sleep_backoff a None x
          = Inr (min ((1 / 2) * 2 ^ nat (a - 1)
                       + uniform 0 ((1 / 4) * ((1 / 2) * 2 ^ nat (a - 1))) x) 10))
   \<and> (sleepable secs \<longrightarrow> sleep_backoff a (Some (Finite secs)) x = Inr secs)"
proof -
  have "1 \<le> a \<and> a \<le> 1024 \<and> 0 \<le> x \<and> x \<le> 1 \<longrightarrow>
      0 \<le> uniform 0 ((1 / 4) * ((1 / 2) * 2 ^ nat (a - 1))) x
      \<and> uniform 0 ((1 / 4) * ((1 / 2) * 2 ^ nat (a - 1))) x \<le> (1 / 4) * ((1 / 2) * 2 ^ nat (a - 1))
      \<and> sleep_backoff a None x
          = Inr (min ((1 / 2) * 2 ^ nat (a - 1)
                       + uniform 0 ((1 / 4) * ((1 / 2) * 2 ^ nat (a - 1))) x) 10)"
  proof
    assume h: "1 \<le> a \<and> a \<le> 1024 \<and> 0 \<le> x \<and> x \<le> 1"
    let ?b = "(1 / 4) * ((1 / 2) * 2 ^ nat (a - 1)) :: real"
    have b: "0 \<le> ?b" by simp
    from jitter_bounds [OF b] h have j: "0 \<le> uniform 0 ?b x \<and> uniform 0 ?b x \<le> ?b" by blast
    from h have "sleep_backoff a None x
          = Inr (min ((1 / 2) * two_pow (a - 1)
                       + uniform 0 ((1 / 4) * ((1 / 2) * two_pow (a - 1))) x) 10)"
      by (intro sleep_backoff_None) simp_all
    with h have "sleep_backoff a None x
          = Inr (min ((1 / 2) * 2 ^ nat (a - 1) + uniform 0 ?b x) 10)"
      by (simp only: two_pow_nat)
    with j show "0 \<le> uniform 0 ?b x \<and> uniform 0 ?b x \<le> ?b
      \<and> sleep_backoff a None x = Inr (min ((1 / 2) * 2 ^ nat (a - 1) + uniform 0 ?b x) 10)"
      by blast
  qed
  moreover have "sleepable secs \<longrightarrow> sleep_backoff a (Some (Finite secs)) x = Inr secs"
    by (simp add: sleep_backoff_Finite sleepable_def)
  ultimately show ?thesis by blast
qed

text \<open>
  Claim C4 at the inputs where the code departs from it. At the attempt count 1025 the
  product \<^verbatim>\<open>0.5 * (2 ** 1024)\<close> raises OverflowError: no delay is computed, where the
  claim gives the delay 10 for every attempt count. A Retry-After value is passed to
  \<^verbatim>\<open>time.sleep\<close> as it is, which raises for \<^verbatim>\<open>10000000000\<close>, \<^verbatim>\<open>-1\<close>, \<^verbatim>\<open>inf\<close> and \<^verbatim>\<open>nan\<close>:
  the value is not slept.
\<close>

theorem sleep_backoff_raises:
  "backoff_delay 1025 None 0
     = Inl (OtherError ''OverflowError'' ''int too large to convert to float'')
   \<and> sleep_backoff 1025 None 0
       = Inl (OtherError ''OverflowError'' ''int too large to convert to float'')
   \<and> sleep_backoff 1 (parse_retry_after (Seconds 10000000000)) 0 = Inl timestamp_error
   \<and> sleep_backoff 1 (parse_retry_after (Seconds (- 1))) 0
       = Inl (OtherError ''ValueError'' ''sleep length must be non-negative'')
   \<and> sleep_backoff 1 (parse_retry_after SecondsInf) 0 = Inl timestamp_error
   \<and> sleep_backoff 1 (parse_retry_after SecondsNaN) 0
       = Inl (OtherError ''ValueError'' ''Invalid value NaN (not a number)'')"
proof -
  have a: "backoff_delay 1025 None 0
     = Inl (OtherError ''OverflowError'' ''int too large to convert to float'')"
    by (simp add: backoff_delay_overflow)
  then have b: "sleep_backoff 1025 None 0
       = Inl (OtherError ''OverflowError'' ''int too large to convert to float'')"
    by (simp add: sleep_backoff_def)
  have c: "sleep_backoff 1 (parse_retry_after (Seconds 10000000000)) 0 = Inl timestamp_error"
    by (simp add: parse_retry_after_def sleep_backoff_Finite clock_overflow_def to_ns_def)
  have d: "sleep_backoff 1 (parse_retry_after (Seconds (- 1))) 0
       = Inl (OtherError ''ValueError'' ''sleep length must be non-negative'')"
    by (simp add: parse_retry_after_def sleep_backoff_Finite clock_overflow_def to_ns_def)
  have e: "sleep_backoff 1 (parse_retry_after SecondsInf) 0 = Inl timestamp_error"
    by (simp add: parse_retry_after_def sleep_backoff_def backoff_delay_Some time_sleep_def)
  have f: "sleep_backoff 1 (parse_retry_after SecondsNaN) 0
       = Inl (OtherError ''ValueError'' ''Invalid value NaN (not a number)'')"
    by (simp add: parse_retry_after_def sleep_backoff_def backoff_delay_Some time_sleep_def)
  from a b c d e f show ?thesis by blast
qed

text \<open>A host that refuses every connection, with more than 1024 retries allowed: the
  first 1024 attempts are each followed by a sleep and the next attempt; the backoff
  after attempt 1025 raises.\<close>

lemma refused_run:
  assumes srv: "\<forall>a. server w a = Raises (URLError reason)" and rnd: "\<forall>a. 0 \<le> rand w a"
    and r: "1025 \<le> retries m"
  shows "n \<le> 1024 \<Longrightarrow>
         snd (download_loop m w u (1024 - int n) le ls)
           = Inl (OtherError ''OverflowError'' ''int too large to convert to float'')
         \<and> requests (fst (download_loop m w u (1024 - int n) le ls)) = int n + 1"
proof (induction n arbitrary: le ls)
  case 0
  have b: "attempt_body m u (1024 + 1) (server w (1024 + 1)) = Inr (None, Inl (URLError reason))"
    using srv by (simp add: attempt_body_Raises)
  have s: "sleep_backoff (1024 + 1) (exn_retry_after (URLError reason)) (rand w (1024 + 1))
           = Inl (OtherError ''OverflowError'' ''int too large to convert to float'')"
    by (simp add: sleep_backoff_def backoff_delay_overflow)
  from loop_crash [OF _ b _ _ s, of le ls] r show ?case by simp
next
  case (Suc n)
  let ?a0 = "1024 - int (Suc n)"
  have a0: "?a0 + 1 = 1024 - int n" by simp
  have b: "attempt_body m u (?a0 + 1) (server w (?a0 + 1)) = Inr (None, Inl (URLError reason))"
    using srv by (simp add: attempt_body_Raises)
  have "?a0 + 1 \<le> 1024" by simp
  moreover have "0 \<le> rand w (?a0 + 1)" using rnd by blast
  ultimately obtain d where
    s: "sleep_backoff (?a0 + 1) (exn_retry_after (URLError reason)) (rand w (?a0 + 1)) = Inr d"
    using sleep_backoff_None [of "?a0 + 1" "rand w (?a0 + 1)"] by auto
  have le: "?a0 \<le> retries m" "?a0 + 1 \<le> retries m" using r by simp_all
  from Suc.prems have n: "n \<le> 1024" by simp
  from loop_retry [OF le(1) b _ le(2) s, of le ls] Suc.IH [OF n] a0
  show ?case by simp
qed

lemma loop_retried_only_if:
  assumes "a0 \<le> retries m"
    and "attempt_body m u (a0 + 1) (server w (a0 + 1)) = Inr (seen, Inl e)"
    and "fst (download_loop m w u a0 le ls) \<noteq> [Get (a0 + 1)]"
  shows "exn_retriable e \<and> a0 + 1 \<le> retries m"
proof (rule ccontr)
  assume "\<not> (exn_retriable e \<and> a0 + 1 \<le> retries m)"
  from loop_stop [OF assms(1,2) this, of le ls] assms(3) show False by simp
qed

text \<open>While the backoff sleeps return, every failure that may be retried is retried
  until the budget is used up: the loop makes \<open>retries + 1\<close> requests and returns the
  failed Result.\<close>

lemma loop_retries_all:
  assumes all: "\<forall>a. a0 < a \<and> a \<le> retries m + 1 \<longrightarrow>
                  (\<exists>seen e. attempt_body m u a (server w a) = Inr (seen, Inl e)
                           \<and> exn_retriable e
                           \<and> can_sleep a (exn_retry_after e) (rand w a))"
  shows "nat (retries m + 1 - a0) = n \<Longrightarrow> a0 \<le> retries m \<Longrightarrow>
         requests (fst (download_loop m w u a0 le ls)) = retries m + 1 - a0
         \<and> (\<exists>r. snd (download_loop m w u a0 le ls) = Inr r \<and> \<not> ok r
                  \<and> attempts r = retries m + 1)"
  using all
proof (induction n arbitrary: a0 le ls)
  case 0
  then show ?case by simp
next
  case (Suc n)
  have a: "a0 \<le> retries m" by (rule Suc.prems(2))
  from Suc.prems(3) a obtain seen e where
    b: "attempt_body m u (a0 + 1) (server w (a0 + 1)) = Inr (seen, Inl e)"
    and r: "exn_retriable e"
    and c: "can_sleep (a0 + 1) (exn_retry_after e) (rand w (a0 + 1))"
    by (metis add_mono_thms_linordered_semiring(1) order_refl zless_add1_eq)
  show ?case
  proof (cases "a0 + 1 \<le> retries m")
    case False
    then have "\<not> (exn_retriable e \<and> a0 + 1 \<le> retries m)" by simp
    from loop_stop [OF a b this, of le ls] False a show ?thesis by simp
  next
    case True
    from can_sleep_ok [OF c] obtain d where
      s: "sleep_backoff (a0 + 1) (exn_retry_after e) (rand w (a0 + 1)) = Inr d" ..
    have n: "nat (retries m + 1 - (a0 + 1)) = n" using Suc.prems(1) by simp
    have rest: "\<forall>a. a0 + 1 < a \<and> a \<le> retries m + 1 \<longrightarrow>
                  (\<exists>seen e. attempt_body m u a (server w a) = Inr (seen, Inl e)
                           \<and> exn_retriable e
                           \<and> can_sleep a (exn_retry_after e) (rand w a))"
      using Suc.prems(3) by simp
    from Suc.IH [OF n True rest] loop_retry [OF a b r True s, of le ls]
    show ?thesis by simp
  qed
qed

text \<open>
  Claim C3 at the inputs where the code departs from it. A failed attempt whose status
  is in the set, or which raised a URLError, with attempts remaining in the budget, is
  not retried when the backoff raises: the exception of \<^verbatim>\<open>time.sleep\<close> or of the
  delay's computation is raised inside the \<^verbatim>\<open>except\<close> clause, leaves \<^verbatim>\<open>_download_one\<close>,
  and there is neither a further attempt nor a Result. First input: \<^verbatim>\<open>--retries 3\<close> and
  a 503 carrying \<^verbatim>\<open>Retry-After: -1\<close>; one request is made where three attempts remain.
  Second input: \<^verbatim>\<open>--retries 1025\<close> and a host that refuses every connection; attempt
  1025 is the last request although one attempt remains, as
  \<^verbatim>\<open>_sleep_backoff(1025, None)\<close> raises OverflowError on \<^verbatim>\<open>0.5 * (2 ** 1024)\<close>.
\<close>

theorem retry_not_made:
  "(503::int) \<in> RETRIABLE_STATUS
   \<and> (1::int) \<le> retries (cli_manager 3)
   \<and> download_one (cli_manager 3)
        \<lparr>server = (\<lambda>a. Raises (HTTPError 503 ''Service Unavailable'' (Seconds (- 1)))),
         rand = (\<lambda>a. 0)\<rparr> ''http://h/x''
       = ([Get 1], Inl (OtherError ''ValueError'' ''sleep length must be non-negative''))
   \<and> (1025::int) \<le> retries (cli_manager 1025)
   \<and> download_loop (cli_manager 1025)
        \<lparr>server = (\<lambda>a. Raises (URLError ''refused'')), rand = (\<lambda>a. 0)\<rparr> ''http://h/x''
        1024 (Some ''URLError: refused'') None
       = ([Get 1025], Inl (OtherError ''OverflowError'' ''int too large to convert to float''))
   \<and> snd (download_one (cli_manager 1025)
        \<lparr>server = (\<lambda>a. Raises (URLError ''refused'')), rand = (\<lambda>a. 0)\<rparr> ''http://h/x'')
       = Inl (OtherError ''OverflowError'' ''int too large to convert to float'')
   \<and> requests (fst (download_one (cli_manager 1025)
        \<lparr>server = (\<lambda>a. Raises (URLError ''refused'')), rand = (\<lambda>a. 0)\<rparr> ''http://h/x''))
       = 1025"
proof -
  let ?w = "\<lparr>server = (\<lambda>a. Raises (URLError ''refused'')), rand = (\<lambda>a::int. 0::real)\<rparr>"
  let ?v = "\<lparr>server = (\<lambda>a. Raises (HTTPError 503 ''Service Unavailable'' (Seconds (- 1)))),
             rand = (\<lambda>a::int. 0::real)\<rparr>"
  let ?x = "OtherError ''OverflowError'' ''int too large to convert to float''"
  let ?y = "OtherError ''ValueError'' ''sleep length must be non-negative''"
  have c: "(503::int) \<in> RETRIABLE_STATUS" by (simp add: RETRIABLE_STATUS_def)
  have n: "sleep_backoff 1 (Some (Finite (- 1))) 0 = Inl ?y"
    by (simp add: sleep_backoff_Finite clock_overflow_def to_ns_def)
  have v: "download_one (cli_manager 3) ?v ''http://h/x'' = ([Get 1], Inl ?y)"
    unfolding download_one_def
    using loop_crash [where ?a0.0 = 0 and m = "cli_manager 3" and w = ?v
                        and u = "''http://h/x''" and seen = None
                        and e = "HTTPError 503 ''Service Unavailable'' (Seconds (- 1))"
                        and x = ?y and le = None and ls = None] c n
    by (simp add: attempt_body_Raises parse_retry_after_def)
  have s: "sleep_backoff 1025 None 0 = Inl ?x"
    by (simp add: sleep_backoff_def backoff_delay_overflow)
  have l: "download_loop (cli_manager 1025) ?w ''http://h/x'' 1024 (Some ''URLError: refused'')
             None = ([Get 1025], Inl ?x)"
    using loop_crash [where ?a0.0 = 1024 and m = "cli_manager 1025" and w = ?w
                        and u = "''http://h/x''" and seen = None
                        and e = "URLError ''refused''" and x = ?x
                        and le = "Some ''URLError: refused''" and ls = None] s
    by (simp add: attempt_body_Raises)
  have srv: "\<forall>a. server ?w a = Raises (URLError ''refused'')" by simp
  have rnd: "\<forall>a. 0 \<le> rand ?w a" by simp
  have r: "1025 \<le> retries (cli_manager 1025)" by simp
  from refused_run [OF srv rnd r, of 1024 "''http://h/x''" None None]
  have run: "snd (download_one (cli_manager 1025) ?w ''http://h/x'') = Inl ?x
             \<and> requests (fst (download_one (cli_manager 1025) ?w ''http://h/x'')) = 1025"
    by (simp add: download_one_def)
  have r3: "(1::int) \<le> retries (cli_manager 3)" by simp
  from c r3 v r l run show ?thesis by blast
qed

section \<open>The attempt budget\<close>

lemma status_step:
  assumes "0 \<le> a0" and "attempt_body m u (a0 + 1) (server w (a0 + 1)) = Inr (seen, Inl e)"
  shows "exn_status e (case seen of Some st \<Rightarrow> Some st | None \<Rightarrow> known_status m w u (nat a0))
         = known_status m w u (nat (a0 + 1))"
proof -
  from assms(1) have n: "nat (a0 + 1) = Suc (nat a0)" and i: "int (Suc (nat a0)) = a0 + 1"
    by simp_all
  have "known_status m w u (Suc (nat a0))
        = (case attempt_status m w u (a0 + 1) of
             Some st \<Rightarrow> Some st | None \<Rightarrow> known_status m w u (nat a0))"
    by (simp only: known_status.simps i)
  moreover have "attempt_status m w u (a0 + 1) = exn_status e seen"
    using assms(2) by (cases e) (simp_all add: attempt_status_def)
  ultimately show ?thesis unfolding n by (cases e; cases seen) simp_all
qed

lemma loop_status:
  "nat (retries m + 1 - a0) = n \<Longrightarrow> snd (download_loop m w u a0 le ls) = Inr r \<Longrightarrow>
   \<not> ok r \<Longrightarrow> 0 \<le> a0 \<Longrightarrow> ls = known_status m w u (nat a0) \<Longrightarrow>
   status r = known_status m w u (nat (attempts r))"
proof (induction n arbitrary: a0 le ls)
  case 0
  then have "\<not> a0 \<le> retries m" by simp
  with "0.prems" show ?case by (auto simp: loop_done)
next
  case (Suc n)
  then have a: "a0 \<le> retries m" by simp
  have n: "nat (retries m + 1 - (a0 + 1)) = n" using Suc.prems by simp
  show ?case
  proof (cases "attempt_body m u (a0 + 1) (server w (a0 + 1))")
    case (Inl x)
    with a Suc.prems(2) show ?thesis by (simp add: loop_blocked)
  next
    case b: (Inr b)
    obtain seen r0 where tb: "attempt_body m u (a0 + 1) (server w (a0 + 1)) = Inr (seen, r0)"
      using b by (cases b) simp
    show ?thesis
    proof (cases r0)
      case (Inr res)
      with a tb Suc.prems(2) have "res = r" by (simp add: loop_success)
      with tb Inr attempt_body_Inr [of m u "a0 + 1" "server w (a0 + 1)" seen res] Suc.prems(3)
      show ?thesis by simp
    next
      case (Inl e)
      let ?ls = "case seen of Some st \<Rightarrow> Some st | None \<Rightarrow> ls"
      have tbe: "attempt_body m u (a0 + 1) (server w (a0 + 1)) = Inr (seen, Inl e)"
        using tb Inl by simp
      have st: "exn_status e ?ls = known_status m w u (nat (a0 + 1))"
        unfolding Suc.prems(5) by (rule status_step [OF Suc.prems(4) tbe])
      show ?thesis
      proof (cases "handle (retries m) (rand w (a0 + 1)) (a0 + 1) le ?ls e")
        case (Retry d err st')
        then have s': "st' = exn_status e ?ls" using handle_Retry by blast
        from a tbe Retry Suc.prems(2)
        have "snd (download_loop m w u (a0 + 1) err st') = Inr r" by (simp add: loop_handle)
        moreover have "0 \<le> a0 + 1" using Suc.prems(4) by simp
        moreover have "st' = known_status m w u (nat (a0 + 1))" using s' st by simp
        ultimately show ?thesis using Suc.IH [OF n] Suc.prems(3) by blast
      next
        case (Stop err st')
        then have "st' = exn_status e ?ls" using handle_Stop by blast
        with a tbe Stop Suc.prems(2) st show ?thesis by (auto simp: loop_handle)
      next
        case (Crash x)
        with a tbe Suc.prems(2) show ?thesis by (simp add: loop_handle)
      qed
    qed
  qed
qed

lemma loop_error:
  "nat (retries m + 1 - a0) = n \<Longrightarrow> snd (download_loop m w u a0 le ls) = Inr r \<Longrightarrow>
   \<not> ok r \<Longrightarrow> a0 \<le> retries m \<Longrightarrow>
   \<exists>seen e. attempt_body m u (attempts r) (server w (attempts r)) = Inr (seen, Inl e)
          \<and> error r = Some (error_text e)"
proof (induction n arbitrary: a0 le ls)
  case 0
  then show ?case by simp
next
  case (Suc n)
  have a: "a0 \<le> retries m" by (rule Suc.prems(4))
  have n: "nat (retries m + 1 - (a0 + 1)) = n" using Suc.prems by simp
  show ?case
  proof (cases "attempt_body m u (a0 + 1) (server w (a0 + 1))")
    case (Inl x)
    with a Suc.prems(2) show ?thesis by (simp add: loop_blocked)
  next
    case b: (Inr b)
    obtain seen r0 where tb: "attempt_body m u (a0 + 1) (server w (a0 + 1)) = Inr (seen, r0)"
      using b by (cases b) simp
    show ?thesis
    proof (cases r0)
      case (Inr res)
      with a tb Suc.prems(2) have "res = r" by (simp add: loop_success)
      with tb Inr attempt_body_Inr [of m u "a0 + 1" "server w (a0 + 1)" seen res] Suc.prems(3)
      show ?thesis by simp
    next
      case (Inl e)
      let ?ls = "case seen of Some st \<Rightarrow> Some st | None \<Rightarrow> ls"
      have tbe: "attempt_body m u (a0 + 1) (server w (a0 + 1)) = Inr (seen, Inl e)"
        using tb Inl by simp
      show ?thesis
      proof (cases "handle (retries m) (rand w (a0 + 1)) (a0 + 1) le ?ls e")
        case (Retry d err st')
        then have b: "a0 + 1 \<le> retries m" using handle_Retry by blast
        from a tbe Retry Suc.prems(2)
        have "snd (download_loop m w u (a0 + 1) err st') = Inr r" by (simp add: loop_handle)
        from Suc.IH [OF n this Suc.prems(3) b] show ?thesis .
      next
        case (Stop err st')
        then have e: "err = Some (error_text e)" using handle_Stop by blast
        from a tbe Stop Suc.prems(2) have "r = failed u st' (a0 + 1) err"
          by (simp add: loop_handle)
        with e tbe show ?thesis by simp
      next
        case (Crash x)
        with a tbe Suc.prems(2) show ?thesis by (simp add: loop_handle)
      qed
    qed
  qed
qed




lemma one_requests: "requests (fst (download_one m w u)) \<le> max 0 (retries m + 1)"
  using loop_requests [OF refl, where ?a0.0 = 0 and m = m and w = w and u = u and le = None
                          and ls = None]
  by (simp add: download_one_def)

lemma one_attempts:
  "snd (download_one m w u) = Inr r \<Longrightarrow>
   attempts r = requests (fst (download_one m w u)) \<and> url r = u"
  using loop_attempts [OF refl, where ?a0.0 = 0 and m = m and w = w and u = u and le = None
                          and ls = None and r = r]
  by (simp add: download_one_def)

lemma one_no_budget:
  "retries m < 0 \<Longrightarrow> download_one m w u = ([], Inr (failed u None 0 None))"
  by (simp add: download_one_def loop_done)

lemma one_positive:
  assumes "0 \<le> retries m" and "snd (download_one m w u) = Inr r"
  shows "1 \<le> attempts r \<and> attempts r \<le> retries m + 1"
proof (cases "attempt_body m u (0 + 1) (server w (0 + 1))")
  case (Inl x)
  from loop_blocked [OF assms(1) this, of None None] assms(2) show ?thesis
    by (simp add: download_one_def)
next
  case (Inr b)
  from loop_first [OF assms(1) this, of None None]
  obtain tr where "fst (download_one m w u) = Get (0 + 1) # tr"
    by (auto simp: download_one_def)
  then have "1 \<le> requests (fst (download_one m w u))" by (simp add: requests_def)
  moreover have "requests (fst (download_one m w u)) \<le> retries m + 1"
    using one_requests [of m w u] assms(1) by simp
  ultimately show ?thesis using one_attempts [OF assms(2)] by simp
qed

lemma one_failed:
  assumes "0 \<le> retries m" and "snd (download_one m w u) = Inr r" and "\<not> ok r"
  shows "status r = known_status m w u (nat (attempts r))
       \<and> (\<exists>seen e. attempt_body m u (attempts r) (server w (attempts r)) = Inr (seen, Inl e)
                  \<and> error r = Some (error_text e))"
  using loop_status [OF refl, of m w u 0 None None r]
        loop_error [OF refl, of m w u 0 None None r] assms
  by (simp add: download_one_def)




section \<open>Properties of download\_many\<close>

lemma collect_Inr: "collect xs = Inr rs \<Longrightarrow> xs = map Inr rs"
proof (induction xs arbitrary: rs)
  case Nil
  then show ?case by simp
next
  case (Cons x xs)
  then show ?case by (auto split: sum.splits)
qed

lemma collect_map_Inr: "collect (map Inr rs) = Inr rs"
  by (induction rs) simp_all

lemma collect_Inl:
  "collect xs = Inl e \<Longrightarrow> Inl e \<in> set xs"
proof (induction xs)
  case Nil
  then show ?case by simp
next
  case (Cons x xs)
  then show ?case by (auto split: sum.splits)
qed

lemma download_many_eq:
  "download_many m ws finish urls
     = collect (map (\<lambda>i. snd (download_one m (ws i) (urls ! i)))
                  (sort_key finish [0..<length urls]))"
  unfolding download_many_def Let_def
  by (rule arg_cong [where f = collect], rule map_cong) simp_all

lemma download_many_Inr:
  assumes "download_many m ws finish urls = Inr rs"
  shows "map Inr rs = map (\<lambda>i. snd (download_one m (ws i) (urls ! i)))
                        (sort_key finish [0..<length urls])"
proof -
  from assms have "collect (map (\<lambda>i. snd (download_one m (ws i) (urls ! i)))
                             (sort_key finish [0..<length urls])) = Inr rs"
    by (simp only: download_many_eq)
  from collect_Inr [OF this] show ?thesis by simp
qed

lemma download_many_member:
  assumes "download_many m ws finish urls = Inr rs" and "r \<in> set rs"
  shows "\<exists>i < length urls. snd (download_one m (ws i) (urls ! i)) = Inr r"
proof -
  from assms(2) have "Inr r \<in> set (map Inr rs :: (exn + Result) list)" by simp
  then have "Inr r \<in> set (map (\<lambda>i. snd (download_one m (ws i) (urls ! i)))
                        (sort_key finish [0..<length urls]))"
    using download_many_Inr [OF assms(1)] by simp
  then show ?thesis by auto
qed

lemma download_many_cardinality:
  assumes "download_many m ws finish urls = Inr rs"
  shows "length rs = length urls \<and> mset (map url rs) = mset urls"
proof -
  let ?n = "length urls"
  let ?order = "sort_key finish [0..<?n]"
  let ?f = "\<lambda>i. snd (download_one m (ws i) (urls ! i))"
  from download_many_Inr [OF assms] have eq: "map Inr rs = map ?f ?order" .
  then have "length (map Inr rs :: (exn + Result) list) = length (map ?f ?order)" by simp
  then have len: "length rs = ?n" by simp
  have "map url rs = map (\<lambda>i. urls ! i) ?order"
  proof (rule nth_equalityI)
    show "length (map url rs) = length (map (\<lambda>i. urls ! i) ?order)" using len by simp
  next
    fix k assume "k < length (map url rs)"
    then have k: "k < length rs" by simp
    then have k': "k < length ?order" using len by simp
    from eq have "(map Inr rs :: (exn + Result) list) ! k = map ?f ?order ! k" by simp
    with k k' have "?f (?order ! k) = Inr (rs ! k)" by simp
    from one_attempts [OF this] have "url (rs ! k) = urls ! (?order ! k)" by simp
    with k k' show "map url rs ! k = map (\<lambda>i. urls ! i) ?order ! k" by simp
  qed
  then have "mset (map url rs) = image_mset (\<lambda>i. urls ! i) (mset ?order)" by simp
  also have "\<dots> = image_mset (\<lambda>i. urls ! i) (mset [0..<?n])" by simp
  also have "\<dots> = mset (map (\<lambda>i. urls ! i) [0..<?n])" by simp
  also have "\<dots> = mset urls" by (simp add: map_nth)
  finally show ?thesis using len by simp
qed

text \<open>When \<^verbatim>\<open>acquire\<close> never raises and every backoff that is called can sleep, the loop
  ends with a Result, and \<^verbatim>\<open>download_many\<close> returns.\<close>

lemma loop_returns:
  assumes acq: "\<forall>a x. attempt_body m u a (server w a) \<noteq> Inl x"
    and slp: "\<forall>a seen e. attempt_body m u a (server w a) = Inr (seen, Inl e)
               \<and> exn_retriable e \<and> a \<le> retries m
               \<longrightarrow> can_sleep a (exn_retry_after e) (rand w a)"
  shows "nat (retries m + 1 - a0) = n \<Longrightarrow> \<exists>r. snd (download_loop m w u a0 le ls) = Inr r"
proof (induction n arbitrary: a0 le ls)
  case 0
  then have "\<not> a0 \<le> retries m" by simp
  then show ?case by (simp add: loop_done)
next
  case (Suc n)
  then have a: "a0 \<le> retries m" by simp
  have n: "nat (retries m + 1 - (a0 + 1)) = n" using Suc.prems by simp
  from acq obtain b where "attempt_body m u (a0 + 1) (server w (a0 + 1)) = Inr b"
    by (cases "attempt_body m u (a0 + 1) (server w (a0 + 1))") auto
  then obtain seen r0 where
    tb: "attempt_body m u (a0 + 1) (server w (a0 + 1)) = Inr (seen, r0)"
    by (cases b) simp
  show ?case
  proof (cases r0)
    case (Inr res)
    with a tb show ?thesis by (simp add: loop_success)
  next
    case (Inl e)
    with tb have tbe: "attempt_body m u (a0 + 1) (server w (a0 + 1)) = Inr (seen, Inl e)"
      by simp
    show ?thesis
    proof (cases "exn_retriable e \<and> a0 + 1 \<le> retries m")
      case False
      from loop_stop [OF a tbe False] show ?thesis by simp
    next
      case True
      with slp tbe have "can_sleep (a0 + 1) (exn_retry_after e) (rand w (a0 + 1))" by blast
      from can_sleep_ok [OF this] obtain d where
        d: "sleep_backoff (a0 + 1) (exn_retry_after e) (rand w (a0 + 1)) = Inr d" ..
      from loop_retry [OF a tbe _ _ d, of le ls] True Suc.IH [OF n]
      show ?thesis by simp
    qed
  qed
qed

lemma download_many_returns:
  assumes "\<forall>i < length urls. \<forall>a x. attempt_body m (urls ! i) a (server (ws i) a) \<noteq> Inl x"
    and "\<forall>i < length urls. \<forall>a seen e.
           attempt_body m (urls ! i) a (server (ws i) a) = Inr (seen, Inl e)
           \<and> exn_retriable e \<and> a \<le> retries m
           \<longrightarrow> can_sleep a (exn_retry_after e) (rand (ws i) a)"
  shows "\<exists>rs. download_many m ws finish urls = Inr rs"
proof -
  let ?n = "length urls"
  let ?order = "sort_key finish [0..<?n]"
  let ?f = "\<lambda>i. snd (download_one m (ws i) (urls ! i))"
  have each: "\<forall>i < ?n. \<exists>r. ?f i = Inr r"
  proof (intro allI impI)
    fix i assume i: "i < ?n"
    from assms i have "\<forall>a x. attempt_body m (urls ! i) a (server (ws i) a) \<noteq> Inl x"
      and "\<forall>a seen e. attempt_body m (urls ! i) a (server (ws i) a) = Inr (seen, Inl e)
               \<and> exn_retriable e \<and> a \<le> retries m
               \<longrightarrow> can_sleep a (exn_retry_after e) (rand (ws i) a)" by blast+
    from loop_returns [OF this refl, of 0 None None]
    show "\<exists>r. ?f i = Inr r" by (simp add: download_one_def)
  qed
  have "map ?f ?order = map Inr (map (\<lambda>i. projr (?f i)) ?order)"
  proof -
    have "\<forall>i \<in> set ?order. ?f i = Inr (projr (?f i))" using each by auto
    then show ?thesis by (simp add: map_idI comp_def cong: map_cong)
  qed
  then have "collect (map ?f ?order) = Inr (map (\<lambda>i. projr (?f i)) ?order)"
    by (simp only: collect_map_Inr)
  then show ?thesis by (simp only: download_many_eq) blast
qed

section \<open>The attempts of a Result, and the coordinator\<close>

lemma DownloadManager_init_retries:
  "DownloadManager_init mkdir now out r concurrency retr tmo ua nc vb = Inr m \<Longrightarrow>
   retries m = retr"
  by (auto simp: DownloadManager_init_def split: option.splits sum.splits if_splits)

text \<open>
  Claim C9, as stated: every Result has at least one attempt, for every configuration
  that the constructor accepts. The constructor accepts \<open>retries = -1\<close> (the command line
  parses any integer); the loop body then never runs and the Result has 0 attempts.
\<close>

theorem attempts_positive_counterexample:
  "DownloadManager_init None 0 [''downloads''] 5 4 (- 1) 20 None False False
     = Inr (cli_manager (- 1))
   \<and> download_many (cli_manager (- 1))
        (\<lambda>i. \<lparr>server = (\<lambda>a. Responds 200 [] [] None), rand = (\<lambda>a. 0)\<rparr>) (\<lambda>i. 0)
        [''http://h/x'']
       = Inr [\<lparr>url = ''http://h/x'', ok = False, path = None, status = None, attempts = 0,
               error = None\<rparr>]"
  by code_simp

text \<open>
  Claim C9, amended. For every configuration with \<open>retries \<ge> 0\<close>, every Result of
  \<^verbatim>\<open>_download_one\<close>, hence every Result that \<^verbatim>\<open>download_many\<close> returns, has between 1 and
  \<open>retries + 1\<close> attempts. The constructor stores any integer as \<open>retries\<close>; with a
  negative one every Result has 0 attempts.
\<close>

theorem attempts_positive:
  "(0 \<le> retries m \<longrightarrow>
      (\<forall>r. snd (download_one m w u) = Inr r \<longrightarrow> 1 \<le> attempts r \<and> attempts r \<le> retries m + 1)
      \<and> (\<forall>rs. download_many m ws finish urls = Inr rs \<longrightarrow>
            (\<forall>r \<in> set rs. 1 \<le> attempts r \<and> attempts r \<le> retries m + 1)))
   \<and> (retries m < 0 \<longrightarrow>
        snd (download_one m w u) = Inr (failed u None 0 None)
        \<and> (\<forall>rs. download_many m ws finish urls = Inr rs \<longrightarrow> (\<forall>r \<in> set rs. attempts r = 0)))
   \<and> (\<forall>m'. DownloadManager_init mkdir now out rt concurrency retr tmo ua nc vb = Inr m' \<longrightarrow>
          retries m' = retr)"
proof -
  have pos: "0 \<le> retries m \<longrightarrow>
      (\<forall>r. snd (download_one m w u) = Inr r \<longrightarrow> 1 \<le> attempts r \<and> attempts r \<le> retries m + 1)
      \<and> (\<forall>rs. download_many m ws finish urls = Inr rs \<longrightarrow>
            (\<forall>r \<in> set rs. 1 \<le> attempts r \<and> attempts r \<le> retries m + 1))"
  proof
    assume p: "0 \<le> retries m"
    have one: "\<forall>r. snd (download_one m w u) = Inr r \<longrightarrow>
                 1 \<le> attempts r \<and> attempts r \<le> retries m + 1"
      using one_positive [OF p] by blast
    have many: "\<forall>rs. download_many m ws finish urls = Inr rs \<longrightarrow>
            (\<forall>r \<in> set rs. 1 \<le> attempts r \<and> attempts r \<le> retries m + 1)"
    proof (intro allI impI ballI)
      fix rs r assume "download_many m ws finish urls = Inr rs" and "r \<in> set rs"
      from download_many_member [OF this]
      obtain i where "snd (download_one m (ws i) (urls ! i)) = Inr r" by blast
      from one_positive [OF p this] show "1 \<le> attempts r \<and> attempts r \<le> retries m + 1" .
    qed
    from one many
    show "(\<forall>r. snd (download_one m w u) = Inr r \<longrightarrow>
             1 \<le> attempts r \<and> attempts r \<le> retries m + 1)
      \<and> (\<forall>rs. download_many m ws finish urls = Inr rs \<longrightarrow>
            (\<forall>r \<in> set rs. 1 \<le> attempts r \<and> attempts r \<le> retries m + 1))"
      by blast
  qed
  have neg: "retries m < 0 \<longrightarrow>
        snd (download_one m w u) = Inr (failed u None 0 None)
        \<and> (\<forall>rs. download_many m ws finish urls = Inr rs \<longrightarrow> (\<forall>r \<in> set rs. attempts r = 0))"
  proof
    assume n: "retries m < 0"
    have one: "snd (download_one m w u) = Inr (failed u None 0 None)"
      using one_no_budget [OF n] by simp
    have many: "\<forall>rs. download_many m ws finish urls = Inr rs \<longrightarrow>
                  (\<forall>r \<in> set rs. attempts r = 0)"
    proof (intro allI impI ballI)
      fix rs r assume "download_many m ws finish urls = Inr rs" and "r \<in> set rs"
      from download_many_member [OF this]
      obtain i where "snd (download_one m (ws i) (urls ! i)) = Inr r" by blast
      with one_no_budget [OF n, of "ws i" "urls ! i"] show "attempts r = 0" by auto
    qed
    from one many
    show "snd (download_one m w u) = Inr (failed u None 0 None)
        \<and> (\<forall>rs. download_many m ws finish urls = Inr rs \<longrightarrow> (\<forall>r \<in> set rs. attempts r = 0))"
      by blast
  qed
  have con: "\<forall>m'. DownloadManager_init mkdir now out rt concurrency retr tmo ua nc vb = Inr m' \<longrightarrow>
          retries m' = retr"
    using DownloadManager_init_retries by blast
  from pos neg con show ?thesis by blast
qed

theorem attempts_positive_witness:
  "0 \<le> retries (cli_manager 0)
   \<and> download_many (cli_manager 0)
        (\<lambda>i. \<lparr>server = (\<lambda>a. Raises (URLError ''refused'')), rand = (\<lambda>a. 0)\<rparr>) (\<lambda>i. 0)
        [''http://h/x'']
       = Inr [failed ''http://h/x'' None 1 (Some ''URLError: refused'')]
   \<and> 1 \<le> attempts (failed ''http://h/x'' None 1 (Some ''URLError: refused''))
   \<and> attempts (failed ''http://h/x'' None 1 (Some ''URLError: refused''))
        \<le> retries (cli_manager 0) + 1
   \<and> retries (cli_manager (- 3)) < 0
   \<and> snd (download_one (cli_manager (- 3))
            \<lparr>server = (\<lambda>a. Raises (URLError ''refused'')), rand = (\<lambda>a. 0)\<rparr> ''http://h/x'')
       = Inr (failed ''http://h/x'' None 0 None)
   \<and> retries (cli_manager (- 3)) = - 3"
proof -
  let ?w = "\<lparr>server = (\<lambda>a. Raises (URLError ''refused'')), rand = (\<lambda>a::int. 0::real)\<rparr>"
  let ?r = "failed ''http://h/x'' None 1 (Some ''URLError: refused'')"
  have p: "0 \<le> retries (cli_manager 0)" by simp
  have n: "retries (cli_manager (- 3)) < 0" by simp
  have d: "download_many (cli_manager 0) (\<lambda>i. ?w) (\<lambda>i. 0) [''http://h/x''] = Inr [?r]"
    by code_simp
  have c: "DownloadManager_init None 0 [''downloads''] 5 4 (- 3) 20 None False False
           = Inr (cli_manager (- 3))" by (rule cli_manager_constructed)
  have i: "?r \<in> set [?r]" by simp
  have a: "1 \<le> attempts ?r \<and> attempts ?r \<le> retries (cli_manager 0) + 1"
    using attempts_positive [of "cli_manager 0" ?w "''http://h/x''" "\<lambda>i. ?w" "\<lambda>i. 0"
                               "[''http://h/x'']"] p d i
    by blast
  have b: "snd (download_one (cli_manager (- 3)) ?w ''http://h/x'')
           = Inr (failed ''http://h/x'' None 0 None)"
    using attempts_positive [of "cli_manager (- 3)" ?w "''http://h/x''"] n by blast
  have e: "retries (cli_manager (- 3)) = - 3"
    using attempts_positive [of _ _ _ _ _ _ None 0 "[''downloads'']" 5 4 "- 3" 20 None False False]
          c by blast
  from p d a n b e show ?thesis by blast
qed

text \<open>
  Claim C1 at the input where the code departs from it. Two URLs are submitted. The
  first is served at once. The second is answered 503 with the header
  \<^verbatim>\<open>Retry-After: -1\<close>: the status is retriable and attempts remain, so the handler calls
  \<^verbatim>\<open>_sleep_backoff\<close>, whose \<^verbatim>\<open>time.sleep(-1.0)\<close> raises ValueError inside the \<^verbatim>\<open>except\<close>
  clause, where no clause catches it. The worker ends with that exception,
  \<^verbatim>\<open>fut.result()\<close> raises it again, and \<^verbatim>\<open>download_many\<close> returns no Result at all.
\<close>

theorem download_many_negative_retry_after:
  "snd (download_one (cli_manager 3)
          \<lparr>server = (\<lambda>a. Raises (HTTPError 503 ''Service Unavailable'' (Seconds (- 1)))),
           rand = (\<lambda>a. 0)\<rparr> ''http://h/x'')
     = Inl (OtherError ''ValueError'' ''sleep length must be non-negative'')
   \<and> download_many (cli_manager 3)
       (\<lambda>i. if i = 0 then \<lparr>server = (\<lambda>a. Responds 200 [] [] None), rand = (\<lambda>a. 0)\<rparr>
             else \<lparr>server = (\<lambda>a. Raises (HTTPError 503 ''Service Unavailable'' (Seconds (- 1)))),
                   rand = (\<lambda>a. 0)\<rparr>)
       (\<lambda>i. real i) [''http://h/ok'', ''http://h/x'']
     = Inl (OtherError ''ValueError'' ''sleep length must be non-negative'')"
  by code_simp

end
